theory Spec2Isabelle
  imports Main
begin

section \<open>Python values and library objects used by uvicorn/server.py\<close>

text \<open>
  The exceptions that the modelled code raises, catches or lets through.
\<close>

datatype py_error =
  IndexError | TypeError | AttributeError | TimeoutError | CancelledError | KeyboardInterrupt

text \<open>
  \<^verbatim>\<open>bytes\<close> values are lists of characters (a \<open>char\<close> is one byte).
\<close>

type_synonym bytes = string

subsection \<open>asyncio.Event\<close>

text \<open>
  An \<^verbatim>\<open>asyncio.Event\<close> is a mutable object: the pool stores references, and the same
  object can be reached from several places. An event is therefore an address, and the
  flag of every event lives in a heap. \<open>next_event\<close> is the address the next call of
  \<^verbatim>\<open>asyncio.Event()\<close> returns; the addresses below it are the objects constructed so far.
\<close>

type_synonym event = nat

record event_heap =
  is_set :: "event \<Rightarrow> bool"
  next_event :: event

definition empty_heap :: event_heap where
  "empty_heap = \<lparr>is_set = (\<lambda>_. False), next_event = 0\<rparr>"

definition allocated :: "event_heap \<Rightarrow> event \<Rightarrow> bool" where
  "allocated h ev = (ev < next_event h)"

text \<open>\<^verbatim>\<open>asyncio.Event()\<close>: a new object, unset.\<close>

definition Event_new :: "event_heap \<Rightarrow> event \<times> event_heap" where
  "Event_new h =
     (next_event h,
      h\<lparr>is_set := (is_set h)(next_event h := False), next_event := Suc (next_event h)\<rparr>)"

text \<open>\<^verbatim>\<open>event.set()\<close> and \<^verbatim>\<open>event.clear()\<close>.\<close>

definition Event_set :: "event \<Rightarrow> event_heap \<Rightarrow> event_heap" where
  "Event_set ev h = h\<lparr>is_set := (is_set h)(ev := True)\<rparr>"

definition Event_clear :: "event \<Rightarrow> event_heap \<Rightarrow> event_heap" where
  "Event_clear ev h = h\<lparr>is_set := (is_set h)(ev := False)\<rparr>"

subsection \<open>list.pop()\<close>

text \<open>
  \<^verbatim>\<open>xs.pop()\<close> removes and returns the last element and raises \<^verbatim>\<open>IndexError\<close> on the
  empty list.
\<close>

definition list_pop :: "'a list \<Rightarrow> py_error + ('a \<times> 'a list)" where
  "list_pop xs = (if xs = [] then Inl IndexError else Inr (last xs, butlast xs))"

section \<open>ServerState\<close>

text \<open>
  The fields of \<^verbatim>\<open>ServerState.__slots__\<close>. The sets \<open>connections\<close> and \<open>tasks\<close> are
  lists of identities, each once, in the order in which a \<^verbatim>\<open>for\<close> loop visits them.
  \<^verbatim>\<open>_event_pool_lock\<close> is created by the constructor and never used by the code
  below; it has no field here.
\<close>

record ServerState =
  total_requests :: int
  connections :: "nat list"
  tasks :: "nat list"
  default_headers :: "(bytes \<times> bytes) list"
  event_pool :: "event list"
  event_pool_max_size :: int
  shutdown_event :: event
  cached_date :: "bytes option"
  cached_date_time :: int

text \<open>\<^verbatim>\<open>ServerState.__init__\<close>: the shutdown event is constructed here.\<close>

definition ServerState_init :: "event_heap \<Rightarrow> ServerState \<times> event_heap" where
  "ServerState_init h =
     (let (ev, h') = Event_new h
      in (\<lparr>total_requests = 0, connections = [], tasks = [], default_headers = [],
           event_pool = [], event_pool_max_size = 1000, shutdown_event = ev,
           cached_date = None, cached_date_time = 0\<rparr>, h'))"

subsection \<open>The event pool\<close>

text \<open>
  \<^verbatim>\<open>acquire_event\<close>: when the pool is not empty, pop its last element, clear it and
  return it; the \<^verbatim>\<open>except IndexError\<close> branch falls through to the construction of
  a new event, as does the empty pool.
\<close>

definition acquire_event :: "ServerState \<Rightarrow> event_heap \<Rightarrow> event \<times> ServerState \<times> event_heap" where
  "acquire_event st h =
     (if event_pool st \<noteq> [] then
        (case list_pop (event_pool st) of
           Inr (ev, rest) \<Rightarrow> (ev, st\<lparr>event_pool := rest\<rparr>, Event_clear ev h)
         | Inl _ \<Rightarrow> (let (ev, h') = Event_new h in (ev, st, h')))
      else (let (ev, h') = Event_new h in (ev, st, h')))"

text \<open>
  \<^verbatim>\<open>release_event\<close>: both the \<^verbatim>\<open>clear()\<close> and the \<^verbatim>\<open>append\<close> stand under the test
  \<^verbatim>\<open>len(self._event_pool) < self._event_pool_max_size\<close>.
\<close>

definition release_event :: "event \<Rightarrow> ServerState \<Rightarrow> event_heap \<Rightarrow> ServerState \<times> event_heap" where
  "release_event ev st h =
     (if int (length (event_pool st)) < event_pool_max_size st
      then (st\<lparr>event_pool := event_pool st @ [ev]\<rparr>, Event_clear ev h)
      else (st, h))"

text \<open>
  Sequences of pool operations. \<open>acquire_many n\<close> is the comprehension
  \<^verbatim>\<open>[state.acquire_event() for _ in range(n)]\<close> and \<open>release_many\<close> the loop
  \<^verbatim>\<open>for event in events: state.release_event(event)\<close> of the test suite.
\<close>

datatype pool_op = Acquire | Release event

fun pool_step :: "pool_op \<Rightarrow> ServerState \<times> event_heap \<Rightarrow> ServerState \<times> event_heap" where
  "pool_step Acquire (st, h) = snd (acquire_event st h)"
| "pool_step (Release ev) (st, h) = release_event ev st h"

fun pool_run :: "pool_op list \<Rightarrow> ServerState \<times> event_heap \<Rightarrow> ServerState \<times> event_heap" where
  "pool_run [] w = w"
| "pool_run (op # ops) w = pool_run ops (pool_step op w)"

fun acquire_many :: "nat \<Rightarrow> ServerState \<Rightarrow> event_heap \<Rightarrow> event list \<times> ServerState \<times> event_heap" where
  "acquire_many 0 st h = ([], st, h)"
| "acquire_many (Suc n) st h =
     (let (ev, st1, h1) = acquire_event st h;
          (evs, st2, h2) = acquire_many n st1 h1
      in (ev # evs, st2, h2))"

fun release_many :: "event list \<Rightarrow> ServerState \<Rightarrow> event_heap \<Rightarrow> ServerState \<times> event_heap" where
  "release_many [] st h = (st, h)"
| "release_many (ev # evs) st h =
     (let (st1, h1) = release_event ev st h in release_many evs st1 h1)"

subsection \<open>The date header cache\<close>

text \<open>
  \<^verbatim>\<open>get_date_header\<close>. The clock reading \<^verbatim>\<open>int(time.time())\<close> is the input
  \<open>current_time\<close>, and \<^verbatim>\<open>formatdate(current_time, usegmt=True).encode()\<close> of the standard
  library is the parameter \<open>formatdate\<close>. The result is the returned header, the list of
  arguments with which this call has evaluated \<open>formatdate\<close> (empty or one element), and
  the state. In the branch that skips the update \<^verbatim>\<open>_cached_date\<close> is not \<^verbatim>\<open>None\<close>.
\<close>

definition get_date_header ::
  "(int \<Rightarrow> bytes) \<Rightarrow> int \<Rightarrow> ServerState \<Rightarrow> bytes \<times> int list \<times> ServerState" where
  "get_date_header formatdate current_time st =
     (if current_time \<noteq> cached_date_time st \<or> cached_date st = None
      then (let d = formatdate current_time
            in (d, [current_time], st\<lparr>cached_date := Some d, cached_date_time := current_time\<rparr>))
      else (the (cached_date st), [], st))"

text \<open>
  Successive calls, one per clock reading of the list: the headers returned, all the
  \<open>formatdate\<close> evaluations in order, and the final state.
\<close>

fun get_date_headers ::
  "(int \<Rightarrow> bytes) \<Rightarrow> int list \<Rightarrow> ServerState \<Rightarrow> bytes list \<times> int list \<times> ServerState" where
  "get_date_headers formatdate [] st = ([], [], st)"
| "get_date_headers formatdate (t # ts) st =
     (let (d, c, st1) = get_date_header formatdate t st;
          (ds, cs, st2) = get_date_headers formatdate ts st1
      in (d # ds, c @ cs, st2))"

section \<open>Server\<close>

text \<open>
  Of the configuration the functions below read \<^verbatim>\<open>limit_max_requests\<close> and
  \<^verbatim>\<open>timeout_graceful_shutdown\<close>, each a number or \<^verbatim>\<open>None\<close>; of the timeout only
  whether it is \<^verbatim>\<open>None\<close>, positive or not positive matters. \<open>servers\<close> is the list of
  listeners that \<^verbatim>\<open>startup\<close> assigns, and \<open>lifespan\<close> the handler that \<^verbatim>\<open>_serve\<close> assigns;
  the constructor assigns neither, and until then the attribute does not exist
  (\<open>None\<close>), so that reading it raises \<^verbatim>\<open>AttributeError\<close>. The float
  \<^verbatim>\<open>last_notified\<close> is used by the notify loop only and has no field.
\<close>

record Config =
  limit_max_requests :: "int option"
  timeout_graceful_shutdown :: "int option"

record Server =
  config :: Config
  server_state :: ServerState
  started :: bool
  should_exit :: bool
  force_exit :: bool
  captured_signals :: "int list"
  servers :: "nat list option"
  lifespan :: "nat option"

text \<open>\<^verbatim>\<open>Server.__init__\<close>, which constructs the \<^verbatim>\<open>ServerState\<close>.\<close>

definition Server_init :: "Config \<Rightarrow> event_heap \<Rightarrow> Server \<times> event_heap" where
  "Server_init cfg h =
     (let (st, h') = ServerState_init h
      in (\<lparr>config = cfg, server_state = st, started = False, should_exit = False,
           force_exit = False, captured_signals = [], servers = None, lifespan = None\<rparr>, h'))"

text \<open>
  What the code does to the outside world, in order: log records (level, message
  template, numeric arguments), calls on listeners, sockets, connections and tasks, and
  calls of the \<^verbatim>\<open>signal\<close> module.
\<close>

datatype log_level = INFO | WARNING | ERROR

datatype handler = SIG_DFL | SIG_IGN | default_int_handler | handle_exit_method | Callable nat

datatype effect =
    Log log_level string "int list"
  | ServerClose nat
  | ServerWaitClosed nat
  | SocketClose nat
  | ConnectionShutdown nat
  | Sleep
  | TaskCancel nat string
  | LifespanShutdown
  | SignalSignal int handler
  | RaiseSignal int

subsection \<open>Signal handling\<close>

definition SIGINT :: int where "SIGINT = 2"
definition SIGTERM :: int where "SIGTERM = 15"
definition SIGBREAK :: int where "SIGBREAK = 21"

text \<open>
  \<^verbatim>\<open>HANDLED_SIGNALS\<close>; \<open>windows\<close> tells whether \<^verbatim>\<open>sys.platform\<close> is \<^verbatim>\<open>win32\<close>, where
  the break signal is handled too.
\<close>

definition HANDLED_SIGNALS :: "bool \<Rightarrow> int list" where
  "HANDLED_SIGNALS windows = [SIGINT, SIGTERM] @ (if windows then [SIGBREAK] else [])"

text \<open>
  \<^verbatim>\<open>handle_exit(sig, frame)\<close>; the frame is not used. Every \<^verbatim>\<open>Server\<close> built by the
  constructor has a \<^verbatim>\<open>server_state\<close> with a \<^verbatim>\<open>_shutdown_event\<close>, so the two
  \<^verbatim>\<open>hasattr\<close> tests hold.
\<close>

definition handle_exit :: "int \<Rightarrow> Server \<Rightarrow> event_heap \<Rightarrow> Server \<times> event_heap" where
  "handle_exit sig srv h =
     (let srv1 = srv\<lparr>captured_signals := captured_signals srv @ [sig]\<rparr>;
          srv2 = (if should_exit srv1 \<and> sig = SIGINT
                  then srv1\<lparr>force_exit := True\<rparr>
                  else srv1\<lparr>should_exit := True\<rparr>)
      in (srv2, Event_set (shutdown_event (server_state srv2)) h))"

text \<open>The handler called once for each signal of a list, in order of arrival.\<close>

fun handle_exits :: "int list \<Rightarrow> Server \<Rightarrow> event_heap \<Rightarrow> Server \<times> event_heap" where
  "handle_exits [] srv h = (srv, h)"
| "handle_exits (sig # sigs) srv h =
     (let (srv1, h1) = handle_exit sig srv h in handle_exits sigs srv1 h1)"

text \<open>
  Whether some call of the run receives \<^verbatim>\<open>SIGINT\<close> at a moment when \<^verbatim>\<open>should_exit\<close>
  is already true.
\<close>

fun sigint_while_exiting :: "int list \<Rightarrow> Server \<Rightarrow> event_heap \<Rightarrow> bool" where
  "sigint_while_exiting [] srv h = False"
| "sigint_while_exiting (sig # sigs) srv h =
     ((should_exit srv \<and> sig = SIGINT) \<or>
      (let (srv1, h1) = handle_exit sig srv h in sigint_while_exiting sigs srv1 h1))"

text \<open>
  \<^verbatim>\<open>signal.raise_signal\<close> delivers the signal to the handler in force, which by then is
  the restored one. The call need not come back: the default disposition of a
  termination signal ends the process, and Python's default interrupt handler raises
  \<^verbatim>\<open>KeyboardInterrupt\<close> out of the call.
\<close>

datatype delivery = HandlerReturned | HandlerRaised py_error | ProcessEnded

datatype exit = Normal | Propagates py_error | Ended

text \<open>The loop \<^verbatim>\<open>for captured_signal in ...: signal.raise_signal(captured_signal)\<close>.\<close>

fun raise_signals :: "(int \<Rightarrow> delivery) \<Rightarrow> int list \<Rightarrow> effect list \<times> exit" where
  "raise_signals deliver [] = ([], Normal)"
| "raise_signals deliver (sig # sigs) =
     (case deliver sig of
        HandlerReturned \<Rightarrow>
          (let (effs, ex) = raise_signals deliver sigs in (RaiseSignal sig # effs, ex))
      | HandlerRaised e \<Rightarrow> ([RaiseSignal sig], Propagates e)
      | ProcessEnded \<Rightarrow> ([RaiseSignal sig], Ended))"

text \<open>
  \<^verbatim>\<open>capture_signals\<close>, a context manager. \<open>body\<close> is the block under the \<^verbatim>\<open>with\<close>: it
  returns \<open>None\<close> when it completes and the exception when it raises, together with the
  server as the block leaves it (signal handlers run during the block). \<open>current\<close> gives
  the handler in force for each signal on entry, which is what \<^verbatim>\<open>signal.signal\<close> returns.
  Off the main thread the generator yields and returns. On the main thread the
  \<^verbatim>\<open>finally\<close> clause restores the handlers on every exit of the block, and the loop
  after it runs only when the block has completed.
\<close>

definition capture_signals ::
  "bool \<Rightarrow> bool \<Rightarrow> (int \<Rightarrow> handler) \<Rightarrow> (int \<Rightarrow> delivery) \<Rightarrow>
   (Server \<times> event_heap \<Rightarrow> py_error option \<times> Server \<times> event_heap) \<Rightarrow>
   Server \<Rightarrow> event_heap \<Rightarrow> effect list \<times> exit \<times> Server \<times> event_heap" where
  "capture_signals is_main_thread windows current deliver body srv h =
     (if \<not> is_main_thread then
        (let (r, w) = body (srv, h)
         in ([], (case r of None \<Rightarrow> Normal | Some e \<Rightarrow> Propagates e), w))
      else
        (let original_handlers = map (\<lambda>sig. (sig, current sig)) (HANDLED_SIGNALS windows);
             install = map (\<lambda>sig. SignalSignal sig handle_exit_method) (HANDLED_SIGNALS windows);
             (r, srv', h') = body (srv, h);
             restore = map (\<lambda>(sig, hdl). SignalSignal sig hdl) original_handlers
         in (case r of
               Some e \<Rightarrow> (install @ restore, Propagates e, srv', h')
             | None \<Rightarrow>
                 (let (raised, ex) = raise_signals deliver (rev (captured_signals srv'))
                  in (install @ restore @ raised, ex, srv', h')))))"

subsection \<open>The max-requests monitor\<close>

text \<open>
  \<^verbatim>\<open>await asyncio.wait_for(self.server_state._shutdown_event.wait(), timeout=0.1)\<close>
  suspends the task. The rest of the program runs meanwhile, so the await is a function
  of the environment: from the server and heap at suspension to the way the wait ended
  and the server and heap at resumption.
\<close>

datatype wait_result = EventIsSet | WaitTimedOut | WaitCancelled

datatype loop_control = Break | Continue

definition max_requests_warning :: string where
  "max_requests_warning = ''Maximum request limit of {} exceeded. Terminating process.''"

text \<open>
  One iteration of the loop of \<^verbatim>\<open>_check_max_requests\<close>, entered when \<^verbatim>\<open>should_exit\<close>
  is false. Comparing an \<^verbatim>\<open>int\<close> with \<^verbatim>\<open>None\<close> raises \<^verbatim>\<open>TypeError\<close>. A cancellation
  during the wait is caught around the loop and ends it.
\<close>

definition check_max_requests_body ::
  "(Server \<times> event_heap \<Rightarrow> wait_result \<times> Server \<times> event_heap) \<Rightarrow>
   Server \<Rightarrow> event_heap \<Rightarrow> py_error + (loop_control \<times> effect list \<times> Server \<times> event_heap)" where
  "check_max_requests_body wait srv h =
     (case limit_max_requests (config srv) of
        None \<Rightarrow> Inl TypeError
      | Some limit \<Rightarrow>
          if total_requests (server_state srv) \<ge> limit then
            Inr (Break, [Log WARNING max_requests_warning [limit]],
                 srv\<lparr>should_exit := True\<rparr>,
                 Event_set (shutdown_event (server_state srv)) h)
          else
            (case wait (srv, h) of
               (EventIsSet, w) \<Rightarrow> Inr (Break, [], w)
             | (WaitTimedOut, w) \<Rightarrow> Inr (Continue, [], w)
             | (WaitCancelled, w) \<Rightarrow> Inr (Break, [], w)))"

text \<open>
  The whole coroutine. The list gives the environment for each wait in turn; the result
  is \<open>None\<close> when the task is still suspended after the waits of the list. With no
  wait left, the task has returned only when \<^verbatim>\<open>should_exit\<close> is true or the iteration
  ends before its wait.
\<close>

fun check_max_requests ::
  "(Server \<times> event_heap \<Rightarrow> wait_result \<times> Server \<times> event_heap) list \<Rightarrow>
   Server \<Rightarrow> event_heap \<Rightarrow> (py_error + (effect list \<times> Server \<times> event_heap)) option" where
  "check_max_requests [] srv h =
     (if should_exit srv then Some (Inr ([], srv, h))
      else (case check_max_requests_body (\<lambda>w. (WaitTimedOut, w)) srv h of
              Inl e \<Rightarrow> Some (Inl e)
            | Inr (Break, effs, w) \<Rightarrow> Some (Inr (effs, w))
            | Inr (Continue, effs, w) \<Rightarrow> None))"
| "check_max_requests (wait # waits) srv h =
     (if should_exit srv then Some (Inr ([], srv, h))
      else (case check_max_requests_body wait srv h of
              Inl e \<Rightarrow> Some (Inl e)
            | Inr (Break, effs, w) \<Rightarrow> Some (Inr (effs, w))
            | Inr (Continue, effs, srv', h') \<Rightarrow>
                (case check_max_requests waits srv' h' of
                   None \<Rightarrow> None
                 | Some (Inl e) \<Rightarrow> Some (Inl e)
                 | Some (Inr (effs', w')) \<Rightarrow> Some (Inr (effs @ effs', w')))))"

subsection \<open>Graceful shutdown\<close>

text \<open>
  Inside \<^verbatim>\<open>asyncio.wait_for\<close> the coroutine suspends at every \<^verbatim>\<open>await asyncio.sleep(0.1)\<close>
  and \<^verbatim>\<open>await server.wait_closed()\<close>. Each suspension is a function of the environment:
  from the server and heap at suspension to the way the suspension ended and the server
  and heap at that moment. It ends because the awaited call returned, because the
  deadline of the enclosing \<^verbatim>\<open>wait_for\<close> elapsed (\<^verbatim>\<open>wait_for\<close> then cancels the coroutine
  and raises \<^verbatim>\<open>asyncio.TimeoutError\<close>), or because the caller was cancelled
  (\<^verbatim>\<open>asyncio.CancelledError\<close>). Without a deadline the second cannot happen: an
  environment that says so describes no run, and the result is \<open>None\<close>.
\<close>

datatype await_result = Resumed | DeadlineElapsed | Cancelled

type_synonym env = "Server \<times> event_heap \<Rightarrow> await_result \<times> Server \<times> event_heap"

definition await_under ::
  "bool \<Rightarrow> env \<Rightarrow> Server \<Rightarrow> event_heap \<Rightarrow> (py_error option \<times> Server \<times> event_heap) option" where
  "await_under deadline e srv h =
     (case e (srv, h) of
        (Resumed, w) \<Rightarrow> Some (None, w)
      | (Cancelled, w) \<Rightarrow> Some (Some CancelledError, w)
      | (DeadlineElapsed, w) \<Rightarrow> if deadline then Some (Some TimeoutError, w) else None)"

text \<open>
  The loops \<^verbatim>\<open>while <condition>: await asyncio.sleep(0.1)\<close> of
  \<^verbatim>\<open>_wait_tasks_to_complete\<close>. The list gives the environment of each suspension in
  turn. The result is the exception that ends the wait, if any, the effects, the server
  and heap, and the environments not yet used; it is \<open>None\<close> when the coroutine is still
  suspended after the suspensions of the list.
\<close>

fun sleep_while ::
  "bool \<Rightarrow> (Server \<Rightarrow> bool) \<Rightarrow> env list \<Rightarrow> Server \<Rightarrow> event_heap \<Rightarrow>
   (py_error option \<times> effect list \<times> Server \<times> event_heap \<times> env list) option" where
  "sleep_while deadline cond [] srv h =
     (if cond srv then None else Some (None, [], srv, h, []))"
| "sleep_while deadline cond (e # es) srv h =
     (if cond srv then
        (case await_under deadline e srv h of
           None \<Rightarrow> None
         | Some (Some exc, srv', h') \<Rightarrow> Some (Some exc, [Sleep], srv', h', es)
         | Some (None, srv', h') \<Rightarrow>
             (case sleep_while deadline cond es srv' h' of
                None \<Rightarrow> None
              | Some (x, effs, rest) \<Rightarrow> Some (x, Sleep # effs, rest)))
      else Some (None, [], srv, h, e # es))"

text \<open>The loop \<^verbatim>\<open>for server in self.servers: await server.wait_closed()\<close>.\<close>

fun wait_closed ::
  "bool \<Rightarrow> nat list \<Rightarrow> env list \<Rightarrow> Server \<Rightarrow> event_heap \<Rightarrow>
   (py_error option \<times> effect list \<times> Server \<times> event_heap \<times> env list) option" where
  "wait_closed deadline [] envs srv h = Some (None, [], srv, h, envs)"
| "wait_closed deadline (sv # svs) [] srv h = None"
| "wait_closed deadline (sv # svs) (e # es) srv h =
     (case await_under deadline e srv h of
        None \<Rightarrow> None
      | Some (Some exc, srv', h') \<Rightarrow> Some (Some exc, [ServerWaitClosed sv], srv', h', es)
      | Some (None, srv', h') \<Rightarrow>
          (case wait_closed deadline svs es srv' h' of
             None \<Rightarrow> None
           | Some (x, effs, rest) \<Rightarrow> Some (x, ServerWaitClosed sv # effs, rest)))"

definition waiting_connections_message :: string where
  "waiting_connections_message = ''Waiting for connections to close. (CTRL+C to force quit)''"

definition waiting_tasks_message :: string where
  "waiting_tasks_message = ''Waiting for background tasks to complete. (CTRL+C to force quit)''"

definition connections_open :: "Server \<Rightarrow> bool" where
  "connections_open srv = (connections (server_state srv) \<noteq> [] \<and> \<not> force_exit srv)"

definition tasks_running :: "Server \<Rightarrow> bool" where
  "tasks_running srv = (tasks (server_state srv) \<noteq> [] \<and> \<not> force_exit srv)"

text \<open>
  \<^verbatim>\<open>_wait_tasks_to_complete\<close>: each \<^verbatim>\<open>if\<close> tests what its \<^verbatim>\<open>while\<close> tests first, with no
  suspension in between.
\<close>

definition wait_tasks_to_complete ::
  "bool \<Rightarrow> env list \<Rightarrow> Server \<Rightarrow> event_heap \<Rightarrow>
   (py_error option \<times> effect list \<times> Server \<times> event_heap \<times> env list) option" where
  "wait_tasks_to_complete deadline envs srv h =
     (let log1 = (if connections_open srv then [Log INFO waiting_connections_message []] else [])
      in (case sleep_while deadline connections_open envs srv h of
            None \<Rightarrow> None
          | Some (Some exc, effs1, w) \<Rightarrow> Some (Some exc, log1 @ effs1, w)
          | Some (None, effs1, srv1, h1, envs1) \<Rightarrow>
              (let log2 = (if tasks_running srv1 then [Log INFO waiting_tasks_message []] else [])
               in (case sleep_while deadline tasks_running envs1 srv1 h1 of
                     None \<Rightarrow> None
                   | Some (Some exc, effs2, w) \<Rightarrow> Some (Some exc, log1 @ effs1 @ log2 @ effs2, w)
                   | Some (None, effs2, srv2, h2, envs2) \<Rightarrow>
                       (case servers srv2 of
                          None \<Rightarrow>
                            Some (Some AttributeError, log1 @ effs1 @ log2 @ effs2, srv2, h2, envs2)
                        | Some svs \<Rightarrow>
                            (case wait_closed deadline svs envs2 srv2 h2 of
                               None \<Rightarrow> None
                             | Some (x, effs3, w) \<Rightarrow>
                                 Some (x, log1 @ effs1 @ log2 @ effs2 @ effs3, w)))))))"

text \<open>
  \<^verbatim>\<open>asyncio.wait_for(self._wait_tasks_to_complete(), timeout=self.config.timeout_graceful_shutdown)\<close>.
  With \<^verbatim>\<open>None\<close> the coroutine runs with no deadline. With a timeout that is not positive
  \<^verbatim>\<open>wait_for\<close> cancels the coroutine before it has run, suspends once while the
  cancellation is delivered, and raises \<^verbatim>\<open>TimeoutError\<close>. With a positive timeout the
  coroutine runs, and the deadline can elapse during any of its suspensions.
\<close>

definition wait_for_tasks_to_complete ::
  "env list \<Rightarrow> Server \<Rightarrow> event_heap \<Rightarrow>
   (py_error option \<times> effect list \<times> Server \<times> event_heap \<times> env list) option" where
  "wait_for_tasks_to_complete envs srv h =
     (case timeout_graceful_shutdown (config srv) of
        None \<Rightarrow> wait_tasks_to_complete False envs srv h
      | Some timeout \<Rightarrow>
          if timeout \<le> 0 then
            (case envs of
               [] \<Rightarrow> None
             | e # es \<Rightarrow>
                 (case e (srv, h) of
                    (Cancelled, srv', h') \<Rightarrow> Some (Some CancelledError, [], srv', h', es)
                  | (_, srv', h') \<Rightarrow> Some (Some TimeoutError, [], srv', h', es)))
          else wait_tasks_to_complete True envs srv h)"

definition cancel_log_message :: string where
  "cancel_log_message = ''Cancel %s running task(s), timeout graceful shutdown exceeded''"

definition cancel_msg :: string where
  "cancel_msg = ''Task cancelled, timeout graceful shutdown exceeded''"

text \<open>
  \<^verbatim>\<open>shutdown\<close>. \<open>sleep\<close> is the environment of the first \<^verbatim>\<open>await asyncio.sleep(0.1)\<close>: it
  gives the exception thrown into the coroutine there, if any, and the server and heap
  when the sleep ends. \<open>handshake\<close> is \<^verbatim>\<open>await self.lifespan.shutdown()\<close>, a call into the
  hosted application's handler, in the same way. \<^verbatim>\<open>self.servers\<close> and the copy of the
  connection set are read before the first suspension; the task set, its size,
  \<^verbatim>\<open>force_exit\<close> and \<^verbatim>\<open>self.lifespan\<close> are read after \<^verbatim>\<open>wait_for\<close> has ended, with no
  suspension in between. The \<^verbatim>\<open>except\<close> clause catches \<^verbatim>\<open>asyncio.TimeoutError\<close> only. The
  result is \<open>None\<close> while the coroutine is still suspended; otherwise it is the effects
  in order, the exception that leaves the procedure, if any, and the server and heap.
\<close>

definition shutdown ::
  "nat list option \<Rightarrow>
   (Server \<times> event_heap \<Rightarrow> py_error option \<times> Server \<times> event_heap) \<Rightarrow>
   env list \<Rightarrow>
   (Server \<times> event_heap \<Rightarrow> py_error option \<times> Server \<times> event_heap) \<Rightarrow>
   Server \<Rightarrow> event_heap \<Rightarrow>
   (effect list \<times> py_error option \<times> Server \<times> event_heap) option" where
  "shutdown sockets sleep envs handshake srv h =
     (case servers srv of
        None \<Rightarrow> Some ([Log INFO ''Shutting down'' []], Some AttributeError, srv, h)
      | Some svs \<Rightarrow>
          (let closing =
                 [Log INFO ''Shutting down'' []] @
                 map ServerClose svs @
                 map SocketClose (case sockets of None \<Rightarrow> [] | Some ss \<Rightarrow> ss) @
                 map ConnectionShutdown (connections (server_state srv)) @
                 [Sleep]
           in (case sleep (srv, h) of
                 (Some exc, srv1, h1) \<Rightarrow> Some (closing, Some exc, srv1, h1)
               | (None, srv1, h1) \<Rightarrow>
                   (case wait_for_tasks_to_complete envs srv1 h1 of
                      None \<Rightarrow> None
                    | Some (x, waiting, srv2, h2, rest) \<Rightarrow>
                        (let cancelling =
                               (if x = Some TimeoutError then
                                  Log ERROR cancel_log_message
                                    [int (length (tasks (server_state srv2)))] #
                                  map (\<lambda>t. TaskCancel t cancel_msg) (tasks (server_state srv2))
                                else [])
                         in if x \<noteq> None \<and> x \<noteq> Some TimeoutError then
                              Some (closing @ waiting, x, srv2, h2)
                            else if force_exit srv2 then
                              Some (closing @ waiting @ cancelling, None, srv2, h2)
                            else
                              (case lifespan srv2 of
                                 None \<Rightarrow>
                                   Some (closing @ waiting @ cancelling, Some AttributeError,
                                         srv2, h2)
                               | Some l \<Rightarrow>
                                   (case handshake (srv2, h2) of
                                      (r, srv3, h3) \<Rightarrow>
                                        Some (closing @ waiting @ cancelling @ [LifespanShutdown],
                                              r, srv3, h3))))))))"

section \<open>Scenarios\<close>

text \<open>
  Acquire \<open>n\<close> events, then release all of them: the configuration of
  \<^verbatim>\<open>test_pool_respects_max_size\<close> and \<^verbatim>\<open>test_stress_test_pool\<close>.
\<close>

definition acquire_then_release_all ::
  "nat \<Rightarrow> ServerState \<Rightarrow> event_heap \<Rightarrow> ServerState \<times> event_heap" where
  "acquire_then_release_all n st h =
     (let (evs, st1, h1) = acquire_many n st h in release_many evs st1 h1)"

text \<open>
  The other order of the same operations: \<open>n\<close> rounds, each acquiring one event and
  releasing it at once (\<^verbatim>\<open>test_multiple_acquire_release_cycles\<close>).
\<close>

fun acquire_release_rounds ::
  "nat \<Rightarrow> ServerState \<Rightarrow> event_heap \<Rightarrow> ServerState \<times> event_heap" where
  "acquire_release_rounds 0 st h = (st, h)"
| "acquire_release_rounds (Suc n) st h =
     (let (ev, st1, h1) = acquire_event st h;
          (st2, h2) = release_event ev st1 h1
      in acquire_release_rounds n st2 h2)"

text \<open>
  Release one event twice, then acquire twice. The result is the pool after the two
  releases, the two events acquired, and the pool at the end.
\<close>

definition release_twice_acquire_twice ::
  "event \<Rightarrow> ServerState \<Rightarrow> event_heap \<Rightarrow> event list \<times> event \<times> event \<times> event list" where
  "release_twice_acquire_twice ev st h =
     (let (st1, h1) = release_event ev st h;
          (st2, h2) = release_event ev st1 h1;
          (a, st3, h3) = acquire_event st2 h2;
          (b, st4, h4) = acquire_event st3 h3
      in (event_pool st2, a, b, event_pool st4))"

section \<open>Concrete states\<close>

definition default_state :: ServerState where
  "default_state = fst (ServerState_init empty_heap)"

definition default_heap :: event_heap where
  "default_heap = snd (ServerState_init empty_heap)"

definition zero_capacity_state :: ServerState where
  "zero_capacity_state = default_state\<lparr>event_pool_max_size := 0\<rparr>"

text \<open>The heap after one more event (address 1) has been constructed and set.\<close>

definition heap_with_set_event :: event_heap where
  "heap_with_set_event = Event_set 1 (snd (Event_new default_heap))"

definition pooled_state :: ServerState where
  "pooled_state = default_state\<lparr>event_pool := [1]\<rparr>"

text \<open>A server as the constructor leaves it, and the heap with its shutdown event.\<close>

definition example_server :: Server where
  "example_server =
     fst (Server_init \<lparr>limit_max_requests = None, timeout_graceful_shutdown = None\<rparr> empty_heap)"

text \<open>A server with the request ceiling 5 that has counted \<open>n\<close> requests.\<close>

definition limited_server :: "int \<Rightarrow> Server" where
  "limited_server n =
     example_server\<lparr>config := (config example_server)\<lparr>limit_max_requests := Some 5\<rparr>,
                    server_state := (server_state example_server)\<lparr>total_requests := n\<rparr>\<rparr>"

text \<open>
  A server after \<^verbatim>\<open>startup\<close> with one listener, a lifespan handler, one open
  connection, two registered tasks and a drain deadline of one second.
\<close>

definition draining_server :: Server where
  "draining_server =
     example_server\<lparr>config := (config example_server)\<lparr>timeout_graceful_shutdown := Some 1\<rparr>,
                    server_state := (server_state example_server)\<lparr>connections := [3], tasks := [7, 8]\<rparr>,
                    servers := Some [0], lifespan := Some 0\<rparr>"

text \<open>
  Environments: a wait that times out, a sleep and a handshake that complete and change
  nothing, and a suspension during which the drain deadline elapses.
\<close>

definition timeout_wait :: "Server \<times> event_heap \<Rightarrow> wait_result \<times> Server \<times> event_heap" where
  "timeout_wait w = (WaitTimedOut, w)"

definition sleep_completes :: "Server \<times> event_heap \<Rightarrow> py_error option \<times> Server \<times> event_heap" where
  "sleep_completes w = (None, w)"

definition handshake_completes ::
  "Server \<times> event_heap \<Rightarrow> py_error option \<times> Server \<times> event_heap" where
  "handshake_completes w = (None, w)"

definition deadline_elapses :: env where
  "deadline_elapses w = (DeadlineElapsed, w)"

text \<open>The levels of the log records of a trace, in order.\<close>

fun log_levels :: "effect list \<Rightarrow> log_level list" where
  "log_levels [] = []"
| "log_levels (Log lvl msg args # effs) = lvl # log_levels effs"
| "log_levels (_ # effs) = log_levels effs"







text \<open>
  A state whose cache holds bytes for second 1 that are not what \<open>example_formatdate\<close>
  below gives for it.
\<close>

definition stale_state :: ServerState where
  "stale_state = default_state\<lparr>cached_date := Some ''stored bytes'', cached_date_time := 1\<rparr>"

text \<open>A stand-in for \<^verbatim>\<open>formatdate\<close> on the first two seconds of the epoch.\<close>

definition example_formatdate :: "int \<Rightarrow> bytes" where
  "example_formatdate t =
     (if t = 0 then ''Thu, 01 Jan 1970 00:00:00 GMT'' else ''Thu, 01 Jan 1970 00:00:01 GMT'')"

section \<open>Properties of the event pool\<close>

lemma acquire_event_nonempty:
  "event_pool st \<noteq> [] \<Longrightarrow>
   acquire_event st h =
     (last (event_pool st), st\<lparr>event_pool := butlast (event_pool st)\<rparr>,
      Event_clear (last (event_pool st)) h)"
  by (simp add: acquire_event_def list_pop_def)

lemma acquire_event_empty:
  "event_pool st = [] \<Longrightarrow>
   acquire_event st h =
     (next_event h, st,
      h\<lparr>is_set := (is_set h)(next_event h := False), next_event := Suc (next_event h)\<rparr>)"
  by (simp add: acquire_event_def Event_new_def)

lemma release_event_below:
  "int (length (event_pool st)) < event_pool_max_size st \<Longrightarrow>
   release_event ev st h = (st\<lparr>event_pool := event_pool st @ [ev]\<rparr>, Event_clear ev h)"
  by (simp add: release_event_def)

lemma release_event_full:
  "\<not> int (length (event_pool st)) < event_pool_max_size st \<Longrightarrow> release_event ev st h = (st, h)"
  by (simp add: release_event_def)

text \<open>
  C1. Every call of \<^verbatim>\<open>acquire_event\<close> returns an event that is unset in the resulting
  heap. When the pool is not empty, the returned event is the last element of the pool,
  the pool loses exactly that element, and the only change to the heap is that the event
  is cleared. When the pool is empty, the returned event is an object that did not exist
  before the call; it is constructed unset, the pool stays empty and no other event
  changes.
\<close>

theorem acquire_event_returns_unset:
  assumes "acquire_event st h = (ev, st', h')"
  shows "\<not> is_set h' ev \<and>
         (event_pool st \<noteq> [] \<longrightarrow>
            event_pool st = event_pool st' @ [ev] \<and>
            st' = st\<lparr>event_pool := butlast (event_pool st)\<rparr> \<and>
            h' = Event_clear ev h) \<and>
         (event_pool st = [] \<longrightarrow>
            \<not> allocated h ev \<and> allocated h' ev \<and> st' = st \<and>
            (\<forall>e. e \<noteq> ev \<longrightarrow> is_set h' e = is_set h e))"
proof (cases "event_pool st = []")
  case True
  with assms show ?thesis
    by (auto simp: acquire_event_empty allocated_def)
next
  case False
  with assms show ?thesis
    by (auto simp: acquire_event_nonempty Event_clear_def)
qed

theorem acquire_event_returns_unset_witness:
  "event_pool pooled_state \<noteq> [] \<and>
   is_set heap_with_set_event 1 \<and>
   acquire_event pooled_state heap_with_set_event =
     (1, default_state, Event_clear 1 heap_with_set_event) \<and>
   \<not> is_set (Event_clear 1 heap_with_set_event) 1 \<and>
   event_pool default_state = [] \<and>
   acquire_event default_state default_heap = (1, default_state, snd (Event_new default_heap)) \<and>
   \<not> allocated default_heap 1 \<and>
   allocated (snd (Event_new default_heap)) 1 \<and>
   \<not> is_set (snd (Event_new default_heap)) 1"
proof -
  have pooled: "acquire_event pooled_state heap_with_set_event =
      (1, default_state, Event_clear 1 heap_with_set_event)"
    by (simp add: acquire_event_def list_pop_def pooled_state_def heap_with_set_event_def
      default_state_def default_heap_def ServerState_init_def Event_new_def Event_set_def
      Event_clear_def empty_heap_def)
  have fresh: "acquire_event default_state default_heap =
      (1, default_state, snd (Event_new default_heap))"
    by (simp add: acquire_event_def list_pop_def pooled_state_def heap_with_set_event_def
      default_state_def default_heap_def ServerState_init_def Event_new_def Event_set_def
      Event_clear_def empty_heap_def)
  have facts: "event_pool pooled_state \<noteq> []" "is_set heap_with_set_event 1"
      "event_pool default_state = []"
    by (simp_all add: pooled_state_def heap_with_set_event_def
      default_state_def default_heap_def ServerState_init_def Event_new_def Event_set_def
      Event_clear_def empty_heap_def)
  from acquire_event_returns_unset[OF pooled] acquire_event_returns_unset[OF fresh]
    pooled fresh facts
  show ?thesis by simp
qed

text \<open>
  C2, as stated, fails: with capacity 0 the pool is at capacity, and releasing the event
  at address 1 while it is set leaves it set; it is not added to the pool either.
\<close>

theorem release_event_at_capacity_keeps_flag:
  "is_set heap_with_set_event 1 \<and>
   is_set (snd (release_event 1 zero_capacity_state heap_with_set_event)) 1 \<and>
   event_pool (fst (release_event 1 zero_capacity_state heap_with_set_event)) = []"
  by (simp add: release_event_def zero_capacity_state_def heap_with_set_event_def
      default_state_def default_heap_def ServerState_init_def Event_new_def Event_set_def
      Event_clear_def empty_heap_def)

text \<open>
  C2, amended. A call of \<^verbatim>\<open>release_event\<close> clears the released event and appends it to
  the pool if and only if the size of the pool is strictly below the capacity ceiling;
  otherwise it changes neither the event nor the pool, so the event is discarded with
  the state it had. The call always returns a state: it has no exception and no wait.
\<close>

theorem release_event_clears_when_pooled:
  assumes "release_event ev st h = (st', h')"
  shows "(int (length (event_pool st)) < event_pool_max_size st \<longrightarrow>
            st' = st\<lparr>event_pool := event_pool st @ [ev]\<rparr> \<and>
            h' = Event_clear ev h \<and> \<not> is_set h' ev) \<and>
         (\<not> int (length (event_pool st)) < event_pool_max_size st \<longrightarrow> st' = st \<and> h' = h) \<and>
         ((event_pool st' = event_pool st @ [ev]) =
            (int (length (event_pool st)) < event_pool_max_size st))"
  using assms by (auto simp: release_event_def Event_clear_def split: if_splits)

theorem release_event_clears_when_pooled_witness:
  "int (length (event_pool default_state)) < event_pool_max_size default_state \<and>
   is_set heap_with_set_event 1 \<and>
   release_event 1 default_state heap_with_set_event =
     (pooled_state, Event_clear 1 heap_with_set_event) \<and>
   \<not> is_set (Event_clear 1 heap_with_set_event) 1 \<and>
   \<not> int (length (event_pool zero_capacity_state)) < event_pool_max_size zero_capacity_state \<and>
   release_event 1 zero_capacity_state heap_with_set_event =
     (zero_capacity_state, heap_with_set_event)"
proof -
  have below: "release_event 1 default_state heap_with_set_event =
      (pooled_state, Event_clear 1 heap_with_set_event)"
    by (simp add: release_event_def zero_capacity_state_def pooled_state_def
      heap_with_set_event_def default_state_def default_heap_def ServerState_init_def Event_new_def Event_set_def
      Event_clear_def empty_heap_def)
  have full: "release_event 1 zero_capacity_state heap_with_set_event =
      (zero_capacity_state, heap_with_set_event)"
    by (simp add: release_event_def zero_capacity_state_def pooled_state_def
      heap_with_set_event_def default_state_def default_heap_def ServerState_init_def Event_new_def Event_set_def
      Event_clear_def empty_heap_def)
  have facts: "int (length (event_pool default_state)) < event_pool_max_size default_state"
      "is_set heap_with_set_event 1"
      "\<not> int (length (event_pool zero_capacity_state)) < event_pool_max_size zero_capacity_state"
    by (simp_all add: zero_capacity_state_def pooled_state_def
      heap_with_set_event_def default_state_def default_heap_def ServerState_init_def Event_new_def Event_set_def
      Event_clear_def empty_heap_def)
  from release_event_clears_when_pooled[OF below] release_event_clears_when_pooled[OF full]
    below full facts
  show ?thesis by simp
qed

subsection \<open>The size of the pool\<close>

lemma release_event_keeps_bound:
  "int (length (event_pool st)) \<le> event_pool_max_size st \<Longrightarrow>
   int (length (event_pool (fst (release_event ev st h)))) \<le> event_pool_max_size st \<and>
   event_pool_max_size (fst (release_event ev st h)) = event_pool_max_size st"
  by (simp add: release_event_def)

lemma acquire_event_keeps_bound:
  "int (length (event_pool st)) \<le> event_pool_max_size st \<Longrightarrow>
   int (length (event_pool (fst (snd (acquire_event st h))))) \<le> event_pool_max_size st \<and>
   event_pool_max_size (fst (snd (acquire_event st h))) = event_pool_max_size st"
  by (cases "event_pool st = []") (simp_all add: acquire_event_empty acquire_event_nonempty)

lemma pool_step_keeps_bound:
  assumes "int (length (event_pool (fst w))) \<le> event_pool_max_size (fst w)"
  shows "int (length (event_pool (fst (pool_step op w)))) \<le> event_pool_max_size (fst w) \<and>
         event_pool_max_size (fst (pool_step op w)) = event_pool_max_size (fst w)"
proof (cases w)
  case (Pair st h)
  with assms show ?thesis
    using release_event_keeps_bound[of st _ h] acquire_event_keeps_bound[of st h]
    by (cases op) simp_all
qed

lemma pool_run_keeps_bound:
  "int (length (event_pool (fst w))) \<le> event_pool_max_size (fst w) \<Longrightarrow>
   int (length (event_pool (fst (pool_run ops w)))) \<le> event_pool_max_size (fst w) \<and>
   event_pool_max_size (fst (pool_run ops w)) = event_pool_max_size (fst w)"
proof (induction ops arbitrary: w)
  case Nil
  then show ?case by simp
next
  case (Cons op ops)
  from pool_step_keeps_bound[OF Cons.prems, of op]
  have b: "int (length (event_pool (fst (pool_step op w)))) \<le> event_pool_max_size (fst (pool_step op w))"
    and m: "event_pool_max_size (fst (pool_step op w)) = event_pool_max_size (fst w)" by simp_all
  from Cons.IH[OF b] m show ?case by simp
qed

lemma acquire_many_empty_pool:
  "event_pool st = [] \<Longrightarrow>
   length (fst (acquire_many n st h)) = n \<and> fst (snd (acquire_many n st h)) = st"
proof (induction n arbitrary: h)
  case 0
  then show ?case by simp
next
  case (Suc n)
  let ?h1 = "h\<lparr>is_set := (is_set h)(next_event h := False), next_event := Suc (next_event h)\<rparr>"
  from Suc.prems have a: "acquire_event st h = (next_event h, st, ?h1)"
    by (rule acquire_event_empty)
  from Suc.IH[OF Suc.prems, of ?h1] show ?case
    by (simp add: a split_beta)
qed

lemma release_many_length:
  "int (length (event_pool st)) \<le> event_pool_max_size st \<Longrightarrow>
   int (length (event_pool (fst (release_many evs st h)))) =
     min (int (length (event_pool st)) + int (length evs)) (event_pool_max_size st)"
proof (induction evs arbitrary: st h)
  case Nil
  then show ?case by simp
next
  case (Cons ev evs)
  show ?case
  proof (cases "int (length (event_pool st)) < event_pool_max_size st")
    case True
    let ?st1 = "st\<lparr>event_pool := event_pool st @ [ev]\<rparr>"
    from True have "int (length (event_pool ?st1)) \<le> event_pool_max_size ?st1" by simp
    from Cons.IH[OF this] True show ?thesis
      by (simp add: release_event_below)
  next
    case False
    with Cons.prems have eq: "int (length (event_pool st)) = event_pool_max_size st" by simp
    from Cons.IH[OF Cons.prems] False eq show ?thesis
      by (simp add: release_event_full)
  qed
qed

text \<open>
  C3. Starting from the empty pool with a capacity ceiling that is not negative, the
  size of the pool after any finite sequence of \<^verbatim>\<open>acquire_event\<close> and \<^verbatim>\<open>release_event\<close>
  calls is at most the ceiling (every prefix of a sequence is a sequence, so the bound
  holds throughout). And a \<^verbatim>\<open>ServerState\<close> as constructed, with ceiling 1000, from which
  1500 events are acquired and then all 1500 released, ends with exactly 1000 events in
  the pool.
\<close>

theorem event_pool_size_bounded:
  "(event_pool st = [] \<and> 0 \<le> event_pool_max_size st \<longrightarrow>
      int (length (event_pool (fst (pool_run ops (st, h))))) \<le> event_pool_max_size st) \<and>
   event_pool_max_size default_state = 1000 \<and>
   length (event_pool (fst (acquire_then_release_all 1500 default_state default_heap))) = 1000"
proof -
  have inv: "event_pool st = [] \<and> 0 \<le> event_pool_max_size st \<longrightarrow>
      int (length (event_pool (fst (pool_run ops (st, h))))) \<le> event_pool_max_size st"
    using pool_run_keeps_bound[of "(st, h)" ops] by simp
  have d: "event_pool default_state = []" "event_pool_max_size default_state = 1000"
    by (simp_all add: default_state_def ServerState_init_def Event_new_def split: prod.splits)
  from acquire_many_empty_pool[OF d(1), of 1500 default_heap]
  have n: "length (fst (acquire_many 1500 default_state default_heap)) = 1500"
    and s: "fst (snd (acquire_many 1500 default_state default_heap)) = default_state" by simp_all
  from d have "int (length (event_pool default_state)) \<le> event_pool_max_size default_state" by simp
  from release_many_length[OF this, of "fst (acquire_many 1500 default_state default_heap)"
      "snd (snd (acquire_many 1500 default_state default_heap))"] n s d
  have "length (event_pool (fst (acquire_then_release_all 1500 default_state default_heap))) = 1000"
    by (simp add: acquire_then_release_all_def split_beta)
  with inv d show ?thesis by blast
qed

theorem event_pool_size_bounded_witness:
  "event_pool zero_capacity_state = [] \<and>
   0 \<le> event_pool_max_size zero_capacity_state \<and>
   event_pool (fst (pool_run [Acquire, Release 1, Release 1]
                      (zero_capacity_state, default_heap))) = [] \<and>
   int (length (event_pool (fst (pool_run [Acquire, Release 1, Release 1]
                                   (zero_capacity_state, default_heap))))) \<le>
     event_pool_max_size zero_capacity_state \<and>
   event_pool default_state = [] \<and>
   0 \<le> event_pool_max_size default_state \<and>
   event_pool (fst (pool_run [Acquire, Release 1, Release 1, Acquire]
                      (default_state, default_heap))) = [1] \<and>
   int (length (event_pool (fst (pool_run [Acquire, Release 1, Release 1, Acquire]
                                   (default_state, default_heap))))) \<le>
     event_pool_max_size default_state"
proof -
  have facts: "event_pool zero_capacity_state = []" "0 \<le> event_pool_max_size zero_capacity_state"
      "event_pool default_state = []" "0 \<le> event_pool_max_size default_state"
    by (simp_all add: zero_capacity_state_def
      default_state_def default_heap_def ServerState_init_def Event_new_def Event_set_def
      Event_clear_def empty_heap_def)
  have runs: "event_pool (fst (pool_run [Acquire, Release 1, Release 1]
                      (zero_capacity_state, default_heap))) = []"
      "event_pool (fst (pool_run [Acquire, Release 1, Release 1, Acquire]
                      (default_state, default_heap))) = [1]"
    by (simp_all add: acquire_event_def release_event_def list_pop_def zero_capacity_state_def
      default_state_def default_heap_def ServerState_init_def Event_new_def Event_set_def
      Event_clear_def empty_heap_def)
  from event_pool_size_bounded[of zero_capacity_state "[Acquire, Release 1, Release 1]" default_heap]
    facts
  have b0: "int (length (event_pool (fst (pool_run [Acquire, Release 1, Release 1]
                                   (zero_capacity_state, default_heap))))) \<le>
     event_pool_max_size zero_capacity_state" by blast
  from event_pool_size_bounded[of default_state "[Acquire, Release 1, Release 1, Acquire]" default_heap]
    facts
  have b1: "int (length (event_pool (fst (pool_run [Acquire, Release 1, Release 1, Acquire]
                                   (default_state, default_heap))))) \<le>
     event_pool_max_size default_state" by blast
  from facts runs b0 b1 show ?thesis by blast
qed

subsection \<open>Rounds of one acquire and one release\<close>

text \<open>
  When each event is released before the next is acquired, the same event goes in and
  out of the pool: from the empty pool with a ceiling of at least 1, the pool holds
  exactly one event after any positive number of rounds.
\<close>

lemma acquire_release_round:
  assumes "length (event_pool st) \<le> 1" and "1 \<le> event_pool_max_size st"
    and "acquire_event st h = (ev, st1, h1)" and "release_event ev st1 h1 = (st2, h2)"
  shows "length (event_pool st2) = 1 \<and> event_pool_max_size st2 = event_pool_max_size st"
proof (cases "event_pool st = []")
  case True
  with assms(3) have "st1 = st" by (simp add: acquire_event_empty)
  with True assms(2,4) show ?thesis by (auto simp: release_event_def)
next
  case False
  with assms(3) have "st1 = st\<lparr>event_pool := butlast (event_pool st)\<rparr>"
    by (simp add: acquire_event_nonempty)
  with assms(1,2,4) show ?thesis by (auto simp: release_event_def)
qed

lemma acquire_release_rounds_length:
  "length (event_pool st) \<le> 1 \<Longrightarrow> 1 \<le> event_pool_max_size st \<Longrightarrow>
   length (event_pool (fst (acquire_release_rounds (Suc n) st h))) = 1"
proof (induction n arbitrary: st h)
  case 0
  obtain ev st1 h1 where a: "acquire_event st h = (ev, st1, h1)" by (cases "acquire_event st h")
  obtain st2 h2 where r: "release_event ev st1 h1 = (st2, h2)" by (cases "release_event ev st1 h1")
  from acquire_release_round[OF "0.prems" a r] a r show ?case by simp
next
  case (Suc n)
  obtain ev st1 h1 where a: "acquire_event st h = (ev, st1, h1)" by (cases "acquire_event st h")
  obtain st2 h2 where r: "release_event ev st1 h1 = (st2, h2)" by (cases "release_event ev st1 h1")
  from acquire_release_round[OF Suc.prems a r]
  have "length (event_pool st2) \<le> 1" "1 \<le> event_pool_max_size st2"
    using Suc.prems(2) by simp_all
  from Suc.IH[OF this, of h2] a r show ?case by simp
qed

text \<open>
  C10. The pool does not deduplicate. When the pool has room for two more events,
  releasing the same event twice makes the pool two elements longer, both of them that
  event, and the next two calls of \<^verbatim>\<open>acquire_event\<close> both return it (after which the
  pool is as it was before the releases).
\<close>

theorem release_twice_no_dedup:
  assumes "int (length (event_pool st)) + 2 \<le> event_pool_max_size st"
  shows "release_twice_acquire_twice ev st h = (event_pool st @ [ev, ev], ev, ev, event_pool st) \<and>
         length (event_pool st @ [ev, ev]) = length (event_pool st) + 2"
proof -
  let ?st1 = "st\<lparr>event_pool := event_pool st @ [ev]\<rparr>"
  let ?st2 = "st\<lparr>event_pool := event_pool st @ [ev, ev]\<rparr>"
  from assms have r1: "release_event ev st h = (?st1, Event_clear ev h)"
    by (simp add: release_event_below)
  from assms have r2: "release_event ev ?st1 (Event_clear ev h) =
      (?st2, Event_clear ev (Event_clear ev h))"
    by (simp add: release_event_below)
  have a1: "acquire_event ?st2 (Event_clear ev (Event_clear ev h)) =
      (ev, ?st1, Event_clear ev (Event_clear ev (Event_clear ev h)))"
    by (simp add: acquire_event_nonempty butlast_append)
  have a2: "acquire_event ?st1 (Event_clear ev (Event_clear ev (Event_clear ev h))) =
      (ev, st\<lparr>event_pool := event_pool st\<rparr>,
       Event_clear ev (Event_clear ev (Event_clear ev (Event_clear ev h))))"
    by (simp add: acquire_event_nonempty)
  show ?thesis
    by (simp add: release_twice_acquire_twice_def r1 r2 a1 a2)
qed

theorem release_twice_no_dedup_witness:
  "int (length (event_pool default_state)) + 2 \<le> event_pool_max_size default_state \<and>
   release_twice_acquire_twice 1 default_state heap_with_set_event = ([1, 1], 1, 1, [])"
proof -
  have room: "int (length (event_pool default_state)) + 2 \<le> event_pool_max_size default_state"
    by (simp add: default_state_def default_heap_def ServerState_init_def Event_new_def Event_set_def
      Event_clear_def empty_heap_def)
  have empty: "event_pool default_state = []"
    by (simp add: default_state_def default_heap_def ServerState_init_def Event_new_def Event_set_def
      Event_clear_def empty_heap_def)
  from release_twice_no_dedup[OF room, of 1 heap_with_set_event] room empty
  show ?thesis by simp
qed

section \<open>Properties of the date header cache\<close>

lemma get_date_header_stores:
  "get_date_header f t st = (d, c, st1) \<Longrightarrow> cached_date st1 = Some d \<and> cached_date_time st1 = t"
  by (auto simp: get_date_header_def Let_def split: if_splits)

lemma get_date_header_hit:
  "cached_date st = Some d \<Longrightarrow> cached_date_time st = t \<Longrightarrow> get_date_header f t st = (d, [], st)"
  by (simp add: get_date_header_def)

lemma get_date_header_miss:
  "t \<noteq> cached_date_time st \<or> cached_date st = None \<Longrightarrow>
   get_date_header f t st = (f t, [t], st\<lparr>cached_date := Some (f t), cached_date_time := t\<rparr>)"
  by (simp add: get_date_header_def Let_def)

lemma get_date_headers_hits:
  "cached_date st = Some d \<Longrightarrow> cached_date_time st = t \<Longrightarrow>
   get_date_headers f (replicate n t) st = (replicate n d, [], st)"
  by (induction n) (simp_all add: get_date_header_hit)

text \<open>
  C4. With the epoch second as an input, from any state. A call of \<^verbatim>\<open>get_date_header\<close>
  at second \<open>t\<close> does one of two things. When \<open>t\<close> differs from the cached second, or
  nothing is cached yet, it evaluates \<open>formatdate\<close> once, at \<open>t\<close>, returns that value and
  stores it together with \<open>t\<close>. Otherwise it returns the bytes that are stored,
  evaluates nothing and leaves the state as it is. In both cases the bytes returned are
  the bytes cached afterwards, for second \<open>t\<close>, so that one more call at \<open>t\<close> returns them
  without formatting; and any number of further calls at the same second return the
  same bytes, leave the state as the first call left it, and add no evaluation of
  \<open>formatdate\<close> to those of the first call, which are at most one.
\<close>

theorem date_header_cached_per_second:
  assumes "get_date_header formatdate t st = (d, calls, st1)"
  shows "get_date_headers formatdate (replicate (Suc n) t) st = (replicate (Suc n) d, calls, st1) \<and>
         length calls \<le> 1 \<and>
         (t \<noteq> cached_date_time st \<longrightarrow>
            d = formatdate t \<and> calls = [t] \<and>
            st1 = st\<lparr>cached_date := Some (formatdate t), cached_date_time := t\<rparr>) \<and>
         (cached_date st = None \<longrightarrow>
            d = formatdate t \<and> calls = [t] \<and>
            st1 = st\<lparr>cached_date := Some (formatdate t), cached_date_time := t\<rparr>) \<and>
         (t = cached_date_time st \<and> cached_date st \<noteq> None \<longrightarrow>
            cached_date st = Some d \<and> calls = [] \<and> st1 = st) \<and>
         cached_date st1 = Some d \<and> cached_date_time st1 = t \<and>
         get_date_header formatdate t st1 = (d, [], st1)"
proof -
  from assms have stored: "cached_date st1 = Some d" "cached_date_time st1 = t"
    using get_date_header_stores by blast+
  have again: "get_date_header formatdate t st1 = (d, [], st1)"
    using stored by (rule get_date_header_hit)
  have rest: "get_date_headers formatdate (replicate n t) st1 = (replicate n d, [], st1)"
    using stored by (rule get_date_headers_hits)
  have all: "get_date_headers formatdate (replicate (Suc n) t) st = (replicate (Suc n) d, calls, st1)"
    using assms rest by simp
  have len: "length calls \<le> 1"
    using assms by (auto simp: get_date_header_def Let_def split: if_splits)
  have miss: "t \<noteq> cached_date_time st \<longrightarrow>
            d = formatdate t \<and> calls = [t] \<and>
            st1 = st\<lparr>cached_date := Some (formatdate t), cached_date_time := t\<rparr>"
    using assms get_date_header_miss[of t st formatdate] by auto
  have first: "cached_date st = None \<longrightarrow>
            d = formatdate t \<and> calls = [t] \<and>
            st1 = st\<lparr>cached_date := Some (formatdate t), cached_date_time := t\<rparr>"
    using assms get_date_header_miss[of t st formatdate] by auto
  have hit: "t = cached_date_time st \<and> cached_date st \<noteq> None \<longrightarrow>
            cached_date st = Some d \<and> calls = [] \<and> st1 = st"
    using assms by (auto simp: get_date_header_def)
  from all len miss first hit stored again show ?thesis by blast
qed

theorem date_header_cached_per_second_witness:
  "cached_date default_state = None \<and> cached_date_time default_state = 0 \<and>
   get_date_header example_formatdate 0 default_state =
     (''Thu, 01 Jan 1970 00:00:00 GMT'', [0],
      default_state\<lparr>cached_date := Some ''Thu, 01 Jan 1970 00:00:00 GMT'', cached_date_time := 0\<rparr>) \<and>
   get_date_header example_formatdate 1 default_state =
     (''Thu, 01 Jan 1970 00:00:01 GMT'', [1],
      default_state\<lparr>cached_date := Some ''Thu, 01 Jan 1970 00:00:01 GMT'', cached_date_time := 1\<rparr>) \<and>
   get_date_headers example_formatdate [1, 1, 1] default_state =
     ([''Thu, 01 Jan 1970 00:00:01 GMT'', ''Thu, 01 Jan 1970 00:00:01 GMT'',
       ''Thu, 01 Jan 1970 00:00:01 GMT''], [1],
      default_state\<lparr>cached_date := Some ''Thu, 01 Jan 1970 00:00:01 GMT'', cached_date_time := 1\<rparr>) \<and>
   cached_date stale_state = Some ''stored bytes'' \<and> cached_date_time stale_state = 1 \<and>
   get_date_header example_formatdate 1 stale_state = (''stored bytes'', [], stale_state) \<and>
   get_date_headers example_formatdate [1, 1, 1] stale_state =
     ([''stored bytes'', ''stored bytes'', ''stored bytes''], [], stale_state)"
proof -
  let ?d0 = "''Thu, 01 Jan 1970 00:00:00 GMT''"
  let ?d1 = "''Thu, 01 Jan 1970 00:00:01 GMT''"
  have start: "cached_date default_state = None" "cached_date_time default_state = 0"
    by (simp_all add: default_state_def ServerState_init_def Event_new_def)
  have stale: "cached_date stale_state = Some ''stored bytes''" "cached_date_time stale_state = 1"
    by (simp_all add: stale_state_def)
  obtain d calls st1 where zero: "get_date_header example_formatdate 0 default_state = (d, calls, st1)"
    by (cases "get_date_header example_formatdate 0 default_state")
  from date_header_cached_per_second[OF zero, of 0] start
  have "d = example_formatdate 0" "calls = [0]"
    "st1 = default_state\<lparr>cached_date := Some (example_formatdate 0), cached_date_time := 0\<rparr>"
    by blast+
  with zero have at0: "get_date_header example_formatdate 0 default_state =
     (?d0, [0], default_state\<lparr>cached_date := Some ?d0, cached_date_time := 0\<rparr>)"
    by (simp add: example_formatdate_def)
  obtain d' calls' st1' where one: "get_date_header example_formatdate 1 default_state = (d', calls', st1')"
    by (cases "get_date_header example_formatdate 1 default_state")
  from date_header_cached_per_second[OF one, of "Suc (Suc 0)"] start
  have m: "d' = example_formatdate 1" "calls' = [1]"
    "st1' = default_state\<lparr>cached_date := Some (example_formatdate 1), cached_date_time := 1\<rparr>"
    and r: "get_date_headers example_formatdate (replicate (Suc (Suc (Suc 0))) 1) default_state =
      (replicate (Suc (Suc (Suc 0))) d', calls', st1')"
    by simp_all
  from one m have at1: "get_date_header example_formatdate 1 default_state =
     (?d1, [1], default_state\<lparr>cached_date := Some ?d1, cached_date_time := 1\<rparr>)"
    by (simp add: example_formatdate_def)
  from r m have run1: "get_date_headers example_formatdate [1, 1, 1] default_state =
     ([?d1, ?d1, ?d1], [1], default_state\<lparr>cached_date := Some ?d1, cached_date_time := 1\<rparr>)"
    by (simp only: replicate.simps) (simp add: example_formatdate_def)
  obtain e calls2 st2 where two: "get_date_header example_formatdate 1 stale_state = (e, calls2, st2)"
    by (cases "get_date_header example_formatdate 1 stale_state")
  from date_header_cached_per_second[OF two, of "Suc (Suc 0)"] stale
  have k: "e = ''stored bytes''" "calls2 = []" "st2 = stale_state"
    and r2: "get_date_headers example_formatdate (replicate (Suc (Suc (Suc 0))) 1) stale_state =
      (replicate (Suc (Suc (Suc 0))) e, calls2, st2)"
    by simp_all
  from two k have hit: "get_date_header example_formatdate 1 stale_state = (''stored bytes'', [], stale_state)"
    by simp
  from r2 k have run2: "get_date_headers example_formatdate [1, 1, 1] stale_state =
     ([''stored bytes'', ''stored bytes'', ''stored bytes''], [], stale_state)"
    by (simp only: replicate.simps)
  from start stale at0 at1 run1 hit run2 show ?thesis by blast
qed

subsection \<open>A clock that does not step back\<close>

text \<open>
  Over any sequence of calls whose clock readings do not decrease, from any state: two
  calls at the same second return the same bytes, and \<open>formatdate\<close> is evaluated at most
  once for each second.
\<close>

lemma get_date_headers_forward:
  assumes "cached_date st = Some d" and "cached_date_time st = c"
    and "sorted ts" and "\<forall>t \<in> set ts. c \<le> t"
    and "get_date_headers f ts st = (ds, cs, st')"
  shows "ds = map (\<lambda>t. if t = c then d else f t) ts \<and>
         sorted_wrt (<) cs \<and> (\<forall>x \<in> set cs. c < x \<and> x \<in> set ts)"
  using assms
proof (induction ts arbitrary: st d c ds cs st')
  case Nil
  then show ?case by simp
next
  case (Cons t ts)
  show ?case
  proof (cases "t = c")
    case True
    with Cons.prems(1,2) have hit: "get_date_header f t st = (d, [], st)"
      by (simp add: get_date_header_hit)
    obtain ds1 cs1 st1 where rest: "get_date_headers f ts st = (ds1, cs1, st1)"
      by (cases "get_date_headers f ts st") auto
    from Cons.prems(5) hit rest have r: "ds = d # ds1" "cs = cs1" by simp_all
    from Cons.prems(3,4) have "sorted ts" "\<forall>t \<in> set ts. c \<le> t" by simp_all
    from Cons.IH[OF Cons.prems(1,2) this rest] r True show ?thesis by simp
  next
    case False
    with Cons.prems(4) have lt: "c < t" by auto
    let ?st1 = "st\<lparr>cached_date := Some (f t), cached_date_time := t\<rparr>"
    from False Cons.prems(2) have miss: "get_date_header f t st = (f t, [t], ?st1)"
      by (simp add: get_date_header_miss)
    obtain ds1 cs1 st2 where rest: "get_date_headers f ts ?st1 = (ds1, cs1, st2)"
      by (cases "get_date_headers f ts ?st1") auto
    from Cons.prems(5) miss rest have r: "ds = f t # ds1" "cs = t # cs1" by simp_all
    from Cons.prems(3) have s: "sorted ts" "\<forall>x \<in> set ts. t \<le> x" by simp_all
    have "cached_date ?st1 = Some (f t)" "cached_date_time ?st1 = t" by simp_all
    from Cons.IH[OF this s rest]
    have ih: "ds1 = map (\<lambda>x. if x = t then f t else f x) ts" "sorted_wrt (<) cs1"
      "\<forall>x \<in> set cs1. t < x \<and> x \<in> set ts" by simp_all
    from s(2) lt
    have "map (\<lambda>x. if x = t then f t else f x) ts = map (\<lambda>x. if x = c then d else f x) ts"
      by auto
    with ih r lt False show ?thesis by auto
  qed
qed

lemma increasing_distinct: "sorted_wrt (<) (xs :: int list) \<Longrightarrow> distinct xs"
  by (induction xs) auto

lemma get_date_headers_monotone_clock:
  assumes "sorted ts" and "get_date_headers f ts st = (ds, cs, st')"
  shows "length ds = length ts \<and>
         (\<forall>i < length ts. \<forall>j < length ts. ts ! i = ts ! j \<longrightarrow> ds ! i = ds ! j) \<and>
         distinct cs \<and> set cs \<subseteq> set ts"
proof (cases ts)
  case Nil
  with assms show ?thesis by simp
next
  case (Cons t ts')
  obtain d c0 st1 where first: "get_date_header f t st = (d, c0, st1)"
    by (cases "get_date_header f t st") auto
  obtain ds1 cs1 st2 where rest: "get_date_headers f ts' st1 = (ds1, cs1, st2)"
    by (cases "get_date_headers f ts' st1") auto
  from assms(2) Cons first rest have r: "ds = d # ds1" "cs = c0 @ cs1" by simp_all
  from first have stored: "cached_date st1 = Some d" "cached_date_time st1 = t"
    using get_date_header_stores by blast+
  from assms(1) Cons have s: "sorted ts'" "\<forall>x \<in> set ts'. t \<le> x" by simp_all
  from get_date_headers_forward[OF stored s rest]
  have ih: "ds1 = map (\<lambda>x. if x = t then d else f x) ts'" "sorted_wrt (<) cs1"
    "\<forall>x \<in> set cs1. t < x \<and> x \<in> set ts'" by simp_all
  have c0: "c0 = [] \<or> c0 = [t]"
    using first by (auto simp: get_date_header_def Let_def split: if_splits)
  have ds: "ds = map (\<lambda>x. if x = t then d else f x) ts"
    using r ih Cons by simp
  have len: "length ds = length ts" using ds by simp
  have same: "\<forall>i < length ts. \<forall>j < length ts. ts ! i = ts ! j \<longrightarrow> ds ! i = ds ! j"
    using ds by simp
  from ih(2) have "distinct cs1" by (rule increasing_distinct)
  with ih(3) c0 r have dist: "distinct cs" by auto
  from ih(3) c0 r Cons have sub: "set cs \<subseteq> set ts" by auto
  from len same dist sub show ?thesis by blast
qed

section \<open>Properties of the max-requests monitor\<close>

text \<open>
  C5. In every iteration of the monitor loop with a configured ceiling: when
  \<^verbatim>\<open>total_requests\<close> has reached the ceiling, the iteration logs one warning, sets
  \<^verbatim>\<open>should_exit\<close>, sets the shutdown event and leaves the loop. When \<^verbatim>\<open>total_requests\<close>
  is strictly below the ceiling, the iteration logs nothing and writes nothing: the
  server and the heap after it are exactly those the environment of the wait handed
  back, so the monitor itself sets neither \<^verbatim>\<open>should_exit\<close> nor the shutdown event.
\<close>

theorem check_max_requests_body_flags:
  assumes "limit_max_requests (config srv) = Some limit"
  shows "(total_requests (server_state srv) \<ge> limit \<longrightarrow>
            check_max_requests_body wait srv h =
              Inr (Break, [Log WARNING max_requests_warning [limit]],
                   srv\<lparr>should_exit := True\<rparr>, Event_set (shutdown_event (server_state srv)) h) \<and>
            should_exit (srv\<lparr>should_exit := True\<rparr>) \<and>
            is_set (Event_set (shutdown_event (server_state srv)) h)
              (shutdown_event (server_state srv))) \<and>
         (total_requests (server_state srv) < limit \<longrightarrow>
            check_max_requests_body wait srv h =
              Inr (if fst (wait (srv, h)) = WaitTimedOut then Continue else Break, [],
                   snd (wait (srv, h))))"
  using assms
  by (cases "wait (srv, h)"; cases "fst (wait (srv, h))")
     (auto simp: check_max_requests_body_def Event_set_def)

theorem check_max_requests_body_flags_witness:
  "limit_max_requests (config (limited_server 5)) = Some 5 \<and>
   total_requests (server_state (limited_server 5)) \<ge> 5 \<and>
   \<not> should_exit (limited_server 5) \<and>
   \<not> is_set default_heap (shutdown_event (server_state (limited_server 5))) \<and>
   check_max_requests_body timeout_wait (limited_server 5) default_heap =
     Inr (Break, [Log WARNING max_requests_warning [5]],
          (limited_server 5)\<lparr>should_exit := True\<rparr>, Event_set 0 default_heap) \<and>
   is_set (Event_set 0 default_heap) 0 \<and>
   limit_max_requests (config (limited_server 4)) = Some 5 \<and>
   total_requests (server_state (limited_server 4)) < 5 \<and>
   check_max_requests_body timeout_wait (limited_server 4) default_heap =
     Inr (Continue, [], limited_server 4, default_heap)"
proof -
  have l5: "limit_max_requests (config (limited_server 5)) = Some 5"
    and l4: "limit_max_requests (config (limited_server 4)) = Some 5"
    by (simp_all add: limited_server_def timeout_wait_def
      example_server_def Server_init_def default_heap_def ServerState_init_def Event_new_def
      Event_set_def empty_heap_def)
  have facts: "total_requests (server_state (limited_server 5)) \<ge> 5"
      "total_requests (server_state (limited_server 4)) < 5"
      "\<not> should_exit (limited_server 5)"
      "\<not> is_set default_heap (shutdown_event (server_state (limited_server 5)))"
      "shutdown_event (server_state (limited_server 5)) = 0"
      "timeout_wait (limited_server 4, default_heap) = (WaitTimedOut, limited_server 4, default_heap)"
    by (simp_all add: limited_server_def timeout_wait_def
      example_server_def Server_init_def default_heap_def ServerState_init_def Event_new_def
      Event_set_def empty_heap_def)
  from check_max_requests_body_flags[OF l5, of timeout_wait default_heap]
    check_max_requests_body_flags[OF l4, of timeout_wait default_heap] l5 l4 facts
  show ?thesis by simp
qed

subsection \<open>The whole loop\<close>

text \<open>
  What one iteration can do, and what a run of the coroutine that has returned has done:
  it has logged nothing, or it has logged the warning once, at a moment when the count
  had reached the ceiling, and then both flags are set on return.
\<close>

lemma check_max_requests_body_cases:
  "check_max_requests_body wait srv h = Inr (c, effs, srv', h') \<Longrightarrow>
     (effs = [] \<and> (srv', h') = snd (wait (srv, h)) \<and>
        (\<exists>limit. limit_max_requests (config srv) = Some limit \<and>
           total_requests (server_state srv) < limit)) \<or>
     (c = Break \<and> srv' = srv\<lparr>should_exit := True\<rparr> \<and>
        h' = Event_set (shutdown_event (server_state srv)) h \<and>
        (\<exists>limit. limit_max_requests (config srv) = Some limit \<and>
           limit \<le> total_requests (server_state srv) \<and>
           effs = [Log WARNING max_requests_warning [limit]]))"
  by (auto simp: check_max_requests_body_def
      split: option.splits if_splits prod.splits wait_result.splits)

lemma check_max_requests_warns_only_at_ceiling:
  "check_max_requests waits srv h = Some (Inr (effs, srv', h')) \<Longrightarrow>
     effs = [] \<or>
     (\<exists>limit. effs = [Log WARNING max_requests_warning [limit]] \<and>
        limit_max_requests (config srv') = Some limit \<and>
        limit \<le> total_requests (server_state srv') \<and>
        should_exit srv' \<and> is_set h' (shutdown_event (server_state srv')))"
proof (induction waits arbitrary: srv h effs)
  case Nil
  then show ?case
    by (auto simp: check_max_requests_body_def Event_set_def
        split: if_splits option.splits sum.splits prod.splits loop_control.splits)
next
  case (Cons wait waits)
  show ?case
  proof (cases "should_exit srv")
    case True
    with Cons.prems show ?thesis by simp
  next
    case False
    show ?thesis
    proof (cases "check_max_requests_body wait srv h")
      case (Inl e)
      with Cons.prems False show ?thesis by simp
    next
      case (Inr r)
      obtain c effs0 srv0 h0 where r: "r = (c, effs0, srv0, h0)" by (cases r) auto
      from check_max_requests_body_cases[of wait srv h c effs0 srv0 h0] Inr r
      consider (quiet) "effs0 = []"
        | (limit) limit where "c = Break" "srv0 = srv\<lparr>should_exit := True\<rparr>"
            "h0 = Event_set (shutdown_event (server_state srv)) h"
            "limit_max_requests (config srv) = Some limit"
            "limit \<le> total_requests (server_state srv)"
            "effs0 = [Log WARNING max_requests_warning [limit]]"
        by auto
      then show ?thesis
      proof cases
        case quiet
        show ?thesis
        proof (cases c)
          case Break
          with Cons.prems False Inr r quiet show ?thesis by simp
        next
          case Continue
          with Cons.prems False Inr r quiet
          obtain effs1 where "check_max_requests waits srv0 h0 = Some (Inr (effs1, srv', h'))"
            and "effs = effs1"
            by (auto split: option.splits sum.splits)
          with Cons.IH[of srv0 h0 effs1] show ?thesis by simp
        qed
      next
        case limit
        with Cons.prems False Inr r show ?thesis
          by (auto simp: Event_set_def)
      qed
    qed
  qed
qed

section \<open>Properties of signal handling\<close>



lemma handle_exit_force_exit:
  "force_exit (fst (handle_exit sig srv h)) = (force_exit srv \<or> (should_exit srv \<and> sig = SIGINT))"
  by (auto simp: handle_exit_def Let_def)

lemma handle_exits_force_exit:
  "force_exit (fst (handle_exits sigs srv h)) = (force_exit srv \<or> sigint_while_exiting sigs srv h)"
proof (induction sigs arbitrary: srv h)
  case Nil
  then show ?case by simp
next
  case (Cons sig sigs)
  obtain srv1 h1 where s: "handle_exit sig srv h = (srv1, h1)" by (cases "handle_exit sig srv h")
  have f: "force_exit srv1 = (force_exit srv \<or> (should_exit srv \<and> sig = SIGINT))"
    using handle_exit_force_exit[of sig srv h] s by simp
  from Cons.IH[of srv1 h1] s f show ?case by auto
qed

lemma no_sigint_never_exiting_interrupt:
  "SIGINT \<notin> set sigs \<Longrightarrow> \<not> sigint_while_exiting sigs srv h"
  by (induction sigs arbitrary: srv h) (auto split: prod.splits)

text \<open>
  C9. Starting with \<^verbatim>\<open>force_exit\<close> false, for every sequence of calls of \<^verbatim>\<open>handle_exit\<close>:
  when no call receives \<^verbatim>\<open>SIGINT\<close> at a moment at which \<^verbatim>\<open>should_exit\<close> is true,
  \<^verbatim>\<open>force_exit\<close> is false at the end; in particular a sequence without \<^verbatim>\<open>SIGINT\<close>
  (termination and break signals only, however many) never sets it.
\<close>

theorem force_exit_only_by_second_interrupt:
  assumes "\<not> force_exit srv"
  shows "(\<not> sigint_while_exiting sigs srv h \<longrightarrow> \<not> force_exit (fst (handle_exits sigs srv h))) \<and>
         (SIGINT \<notin> set sigs \<longrightarrow> \<not> force_exit (fst (handle_exits sigs srv h)))"
  using assms handle_exits_force_exit[of sigs srv h] no_sigint_never_exiting_interrupt[of sigs srv h]
  by blast

theorem force_exit_only_by_second_interrupt_witness:
  "\<not> force_exit example_server \<and>
   \<not> sigint_while_exiting [SIGINT, SIGTERM, SIGBREAK, SIGTERM] example_server default_heap \<and>
   \<not> force_exit (fst (handle_exits [SIGINT, SIGTERM, SIGBREAK, SIGTERM] example_server default_heap)) \<and>
   should_exit (fst (handle_exits [SIGINT, SIGTERM, SIGBREAK, SIGTERM] example_server default_heap)) \<and>
   SIGINT \<notin> set [SIGTERM, SIGBREAK, SIGTERM] \<and>
   \<not> force_exit (fst (handle_exits [SIGTERM, SIGBREAK, SIGTERM] example_server default_heap))"
proof -
  have start: "\<not> force_exit example_server"
    by (simp add: SIGINT_def SIGTERM_def SIGBREAK_def
      example_server_def Server_init_def default_heap_def ServerState_init_def Event_new_def
      Event_set_def empty_heap_def)
  have quiet: "\<not> sigint_while_exiting [SIGINT, SIGTERM, SIGBREAK, SIGTERM] example_server default_heap"
    by (simp add: handle_exit_def SIGINT_def SIGTERM_def SIGBREAK_def
      example_server_def Server_init_def default_heap_def ServerState_init_def Event_new_def
      Event_set_def empty_heap_def)
  have none: "SIGINT \<notin> set [SIGTERM, SIGBREAK, SIGTERM]"
    by (simp add: SIGINT_def SIGTERM_def SIGBREAK_def
      example_server_def Server_init_def default_heap_def ServerState_init_def Event_new_def
      Event_set_def empty_heap_def)
  have exits: "should_exit (fst (handle_exits [SIGINT, SIGTERM, SIGBREAK, SIGTERM] example_server default_heap))"
    by (simp add: handle_exit_def SIGINT_def SIGTERM_def SIGBREAK_def
      example_server_def Server_init_def default_heap_def ServerState_init_def Event_new_def
      Event_set_def empty_heap_def)
  from force_exit_only_by_second_interrupt[OF start, of "[SIGINT, SIGTERM, SIGBREAK, SIGTERM]" default_heap]
    force_exit_only_by_second_interrupt[OF start, of "[SIGTERM, SIGBREAK, SIGTERM]" default_heap]
    start quiet none exits
  show ?thesis by blast
qed

subsection \<open>Leaving the served state\<close>




lemma capture_signals_off_main_thread:
  "fst (capture_signals False windows current deliver body srv h) = []"
  by (simp add: capture_signals_def split_beta)

lemma capture_signals_block_raises:
  "body (srv, h) = (Some e, srv', h') \<Longrightarrow>
   capture_signals True windows current deliver body srv h =
     (map (\<lambda>sig. SignalSignal sig handle_exit_method) (HANDLED_SIGNALS windows) @
      map (\<lambda>sig. SignalSignal sig (current sig)) (HANDLED_SIGNALS windows),
      Propagates e, srv', h')"
  by (simp add: capture_signals_def Let_def split_beta comp_def)




section \<open>Properties of graceful shutdown\<close>

lemma log_levels_append: "log_levels (xs @ ys) = log_levels xs @ log_levels ys"
  by (induction xs rule: log_levels.induct) simp_all

lemma log_levels_map_none [simp]:
  "log_levels (map ServerClose xs) = []"
  "log_levels (map SocketClose xs) = []"
  "log_levels (map ConnectionShutdown xs) = []"
  "log_levels (map (\<lambda>t. TaskCancel t m) xs) = []"
  by (induction xs) simp_all

subsection \<open>What the waiting coroutine does\<close>

text \<open>
  The effects of the two polling loops are sleeps, those of the last loop are calls of
  \<^verbatim>\<open>wait_closed\<close>; the only log records of \<^verbatim>\<open>_wait_tasks_to_complete\<close> are of level
  \<^verbatim>\<open>INFO\<close>, and it never calls the lifespan shutdown.
\<close>

lemma sleep_while_effects:
  "sleep_while deadline cond envs srv h = Some (x, effs, w) \<Longrightarrow> set effs \<subseteq> {Sleep}"
proof (induction envs arbitrary: srv h x effs w)
  case Nil
  then show ?case by (simp split: if_splits)
next
  case (Cons e es)
  show ?case
  proof (cases "cond srv")
    case False
    with Cons.prems show ?thesis by simp
  next
    case True
    show ?thesis
    proof (cases "await_under deadline e srv h")
      case None
      with Cons.prems True show ?thesis by simp
    next
      case (Some r)
      obtain y srv' h' where r: "r = (y, srv', h')" by (cases r) auto
      show ?thesis
      proof (cases y)
        case (Some exc)
        with Cons.prems True \<open>await_under deadline e srv h = Some r\<close> r show ?thesis by auto
      next
        case None
        with Cons.prems True \<open>await_under deadline e srv h = Some r\<close> r
        obtain effs1 where "sleep_while deadline cond es srv' h' = Some (x, effs1, w)"
          and "effs = Sleep # effs1"
          by (auto split: option.splits)
        with Cons.IH[of srv' h' x effs1 w] show ?thesis by simp
      qed
    qed
  qed
qed

lemma wait_closed_effects:
  "wait_closed deadline svs envs srv h = Some (x, effs, w) \<Longrightarrow>
   set effs \<subseteq> ServerWaitClosed ` set svs"
proof (induction deadline svs envs srv h arbitrary: x effs w rule: wait_closed.induct)
  case (1 deadline envs srv h)
  then show ?case by simp
next
  case (2 deadline sv svs srv h)
  then show ?case by simp
next
  case (3 deadline sv svs e es srv h)
  show ?case
  proof (cases "await_under deadline e srv h")
    case None
    with "3.prems" show ?thesis by simp
  next
    case (Some r)
    obtain y srv' h' where r: "r = (y, srv', h')" by (cases r) auto
    show ?thesis
    proof (cases y)
      case (Some exc)
      with "3.prems" \<open>await_under deadline e srv h = Some r\<close> r show ?thesis by auto
    next
      case None
      with "3.prems" \<open>await_under deadline e srv h = Some r\<close> r
      obtain effs1 where w: "wait_closed deadline svs es srv' h' = Some (x, effs1, w)"
        and e: "effs = ServerWaitClosed sv # effs1"
        by (auto split: option.splits)
      from "3.IH"[of "(y, srv', h')" y "(srv', h')" srv' h' x effs1 w] w
        \<open>await_under deadline e srv h = Some r\<close> r None
      have "set effs1 \<subseteq> ServerWaitClosed ` set svs" by simp
      with e show ?thesis by auto
    qed
  qed
qed

lemma wait_tasks_to_complete_effects:
  assumes "wait_tasks_to_complete deadline envs srv h = Some (x, effs, w)"
  shows "set effs \<subseteq>
           {Log INFO waiting_connections_message [], Log INFO waiting_tasks_message [], Sleep} \<union>
           range ServerWaitClosed"
proof -
  let ?A = "{Log INFO waiting_connections_message [], Log INFO waiting_tasks_message [], Sleep} \<union>
           range ServerWaitClosed"
  let ?log1 = "if connections_open srv then [Log INFO waiting_connections_message []] else []"
  have l1: "set ?log1 \<subseteq> ?A" by auto
  obtain y1 effs1 srv1 h1 envs1
    where s1: "sleep_while deadline connections_open envs srv h = Some (y1, effs1, srv1, h1, envs1)"
    using assms unfolding wait_tasks_to_complete_def Let_def
    by (cases "sleep_while deadline connections_open envs srv h") auto
  from sleep_while_effects[OF s1] have e1: "set effs1 \<subseteq> ?A" by auto
  show ?thesis
  proof (cases y1)
    case (Some exc)
    with assms s1 have "effs = ?log1 @ effs1"
      unfolding wait_tasks_to_complete_def Let_def by simp
    with l1 e1 show ?thesis by auto
  next
    case y1: None
    let ?log2 = "if tasks_running srv1 then [Log INFO waiting_tasks_message []] else []"
    have l2: "set ?log2 \<subseteq> ?A" by auto
    obtain y2 effs2 srv2 h2 envs2
      where s2: "sleep_while deadline tasks_running envs1 srv1 h1 = Some (y2, effs2, srv2, h2, envs2)"
      using assms s1 y1 unfolding wait_tasks_to_complete_def Let_def
      by (cases "sleep_while deadline tasks_running envs1 srv1 h1") auto
    from sleep_while_effects[OF s2] have e2: "set effs2 \<subseteq> ?A" by auto
    show ?thesis
    proof (cases y2)
      case (Some exc)
      with assms s1 y1 s2 have "effs = ?log1 @ effs1 @ ?log2 @ effs2"
        unfolding wait_tasks_to_complete_def Let_def by simp
      with l1 e1 l2 e2 show ?thesis by auto
    next
      case y2: None
      show ?thesis
      proof (cases "servers srv2")
        case None
        with assms s1 y1 s2 y2 have "effs = ?log1 @ effs1 @ ?log2 @ effs2"
          unfolding wait_tasks_to_complete_def Let_def by simp
        with l1 e1 l2 e2 show ?thesis by auto
      next
        case (Some svs)
        obtain y3 effs3 w3
          where s3: "wait_closed deadline svs envs2 srv2 h2 = Some (y3, effs3, w3)"
          using assms s1 y1 s2 y2 Some unfolding wait_tasks_to_complete_def Let_def
          by (cases "wait_closed deadline svs envs2 srv2 h2") auto
        from wait_closed_effects[OF s3] have e3: "set effs3 \<subseteq> ?A" by auto
        from assms s1 y1 s2 y2 Some s3 have "effs = ?log1 @ effs1 @ ?log2 @ effs2 @ effs3"
          unfolding wait_tasks_to_complete_def Let_def by simp
        with l1 e1 l2 e2 e3 show ?thesis by auto
      qed
    qed
  qed
qed

lemma wait_for_tasks_to_complete_effects:
  assumes "wait_for_tasks_to_complete envs srv h = Some (x, effs, w)"
  shows "set effs \<subseteq>
           {Log INFO waiting_connections_message [], Log INFO waiting_tasks_message [], Sleep} \<union>
           range ServerWaitClosed"
proof (cases "timeout_graceful_shutdown (config srv)")
  case None
  with assms show ?thesis
    using wait_tasks_to_complete_effects[of False envs srv h x effs w]
    by (simp add: wait_for_tasks_to_complete_def)
next
  case (Some timeout)
  show ?thesis
  proof (cases "timeout \<le> 0")
    case False
    with assms Some show ?thesis
      using wait_tasks_to_complete_effects[of True envs srv h x effs w]
      by (simp add: wait_for_tasks_to_complete_def)
  next
    case True
    with assms Some have "effs = []"
      by (auto simp: wait_for_tasks_to_complete_def
          split: list.splits prod.splits await_result.splits)
    then show ?thesis by simp
  qed
qed

lemma waiting_effects_levels:
  "set effs \<subseteq>
     {Log INFO waiting_connections_message [], Log INFO waiting_tasks_message [], Sleep} \<union>
     range ServerWaitClosed \<Longrightarrow>
   set (log_levels effs) \<subseteq> {INFO} \<and> LifespanShutdown \<notin> set effs"
  by (induction effs rule: log_levels.induct) auto

subsection \<open>Before startup\<close>

text \<open>
  On a server whose \<^verbatim>\<open>startup\<close> has not run, \<^verbatim>\<open>shutdown\<close> logs its first record and
  raises \<^verbatim>\<open>AttributeError\<close> at \<^verbatim>\<open>self.servers\<close>.
\<close>

lemma shutdown_before_startup:
  "servers srv = None \<Longrightarrow>
   shutdown sockets sleep envs handshake srv h =
     Some ([Log INFO ''Shutting down'' []], Some AttributeError, srv, h)"
  by (simp add: shutdown_def)

subsection \<open>The drain deadline\<close>

text \<open>
  C8, as stated, fails on the level of the log record. A server after startup with one
  open connection, two registered tasks and a deadline of one second, which elapses
  before the first sleep of the waiting coroutine returns: the records are two of level
  \<^verbatim>\<open>INFO\<close> (shutting down, waiting for connections) and one of level \<^verbatim>\<open>ERROR\<close> that
  carries the count 2. There is no record of level \<^verbatim>\<open>WARNING\<close>.
\<close>

theorem shutdown_timeout_logs_error:
  "shutdown None sleep_completes [deadline_elapses] handshake_completes
       draining_server default_heap =
     Some ([Log INFO ''Shutting down'' [], ServerClose 0, ConnectionShutdown 3, Sleep,
            Log INFO waiting_connections_message [], Sleep,
            Log ERROR cancel_log_message [2],
            TaskCancel 7 cancel_msg, TaskCancel 8 cancel_msg, LifespanShutdown],
           None, draining_server, default_heap) \<and>
   log_levels [Log INFO ''Shutting down'' [], ServerClose 0, ConnectionShutdown 3, Sleep,
               Log INFO waiting_connections_message [], Sleep,
               Log ERROR cancel_log_message [2],
               TaskCancel 7 cancel_msg, TaskCancel 8 cancel_msg, LifespanShutdown] =
     [INFO, INFO, ERROR] \<and>
   WARNING \<notin> set [INFO, INFO, ERROR]"
  by (simp add: shutdown_def wait_for_tasks_to_complete_def wait_tasks_to_complete_def
      await_under_def connections_open_def tasks_running_def
      draining_server_def deadline_elapses_def sleep_completes_def handshake_completes_def
      example_server_def Server_init_def default_heap_def ServerState_init_def Event_new_def
      Event_set_def empty_heap_def split_beta)

text \<open>
  C8, amended. On a server after startup, when the first sleep has completed and
  \<^verbatim>\<open>wait_for\<close> ends with \<^verbatim>\<open>TimeoutError\<close> because the drain deadline has elapsed:
  \<^verbatim>\<open>shutdown\<close> returns, and the timeout does not leave it; the only exception that can
  leave it is one raised by the hosted application's handshake, and none does when the
  handshake completes or \<^verbatim>\<open>force_exit\<close> is set. Its effects are, in order, the closing
  steps, whatever the waiting coroutine did until the deadline (its log records are of
  level \<^verbatim>\<open>INFO\<close>), one log record of level \<^verbatim>\<open>ERROR\<close> that carries the number of tasks
  registered at that moment, the cancellation of every one of these tasks with the
  explanatory message, and then the lifespan shutdown if and only if \<^verbatim>\<open>force_exit\<close> is
  false. No record of level \<^verbatim>\<open>WARNING\<close> is logged.
\<close>

theorem shutdown_deadline_elapsed:
  assumes "servers srv = Some svs"
    and "sleep (srv, h) = (None, srv1, h1)"
    and "wait_for_tasks_to_complete envs srv1 h1 = Some (Some TimeoutError, waiting, srv2, h2, rest)"
    and "lifespan srv2 = Some l"
    and "handshake (srv2, h2) = (r, srv3, h3)"
  shows "\<exists>effs. shutdown sockets sleep envs handshake srv h =
             Some (effs, (if force_exit srv2 then None else r),
                   (if force_exit srv2 then (srv2, h2) else (srv3, h3))) \<and>
           effs =
             ([Log INFO ''Shutting down'' []] @
              map ServerClose svs @
              map SocketClose (case sockets of None \<Rightarrow> [] | Some ss \<Rightarrow> ss) @
              map ConnectionShutdown (connections (server_state srv)) @
              [Sleep]) @
             waiting @
             (Log ERROR cancel_log_message [int (length (tasks (server_state srv2)))] #
              map (\<lambda>t. TaskCancel t cancel_msg) (tasks (server_state srv2))) @
             (if \<not> force_exit srv2 then [LifespanShutdown] else []) \<and>
           (\<forall>t \<in> set (tasks (server_state srv2)). TaskCancel t cancel_msg \<in> set effs) \<and>
           (LifespanShutdown \<in> set effs) = (\<not> force_exit srv2) \<and>
           set (log_levels waiting) \<subseteq> {INFO} \<and>
           log_levels effs = INFO # log_levels waiting @ [ERROR] \<and>
           WARNING \<notin> set (log_levels effs)"
proof -
  let ?closing = "[Log INFO ''Shutting down'' []] @
              map ServerClose svs @
              map SocketClose (case sockets of None \<Rightarrow> [] | Some ss \<Rightarrow> ss) @
              map ConnectionShutdown (connections (server_state srv)) @
              [Sleep]"
  let ?cancelling = "Log ERROR cancel_log_message [int (length (tasks (server_state srv2)))] #
              map (\<lambda>t. TaskCancel t cancel_msg) (tasks (server_state srv2))"
  let ?lifespan = "if \<not> force_exit srv2 then [LifespanShutdown] else []"
  let ?effs = "?closing @ waiting @ ?cancelling @ ?lifespan"
  have run: "shutdown sockets sleep envs handshake srv h =
      Some (?effs, (if force_exit srv2 then None else r),
            (if force_exit srv2 then (srv2, h2) else (srv3, h3)))"
    using assms by (simp add: shutdown_def Let_def)
  from wait_for_tasks_to_complete_effects[OF assms(3)]
  have quiet: "set (log_levels waiting) \<subseteq> {INFO}" and nolife: "LifespanShutdown \<notin> set waiting"
    using waiting_effects_levels[of waiting] by simp_all
  have cancelled: "\<forall>t \<in> set (tasks (server_state srv2)). TaskCancel t cancel_msg \<in> set ?effs"
    by simp
  have life: "(LifespanShutdown \<in> set ?effs) = (\<not> force_exit srv2)"
    using nolife by auto
  have levels: "log_levels ?effs = INFO # log_levels waiting @ [ERROR]"
    by (simp add: log_levels_append)
  have nowarn: "WARNING \<notin> set (log_levels ?effs)"
    using quiet unfolding levels by auto
  from run cancelled life quiet levels nowarn show ?thesis by blast
qed

theorem shutdown_deadline_elapsed_witness:
  "servers draining_server = Some [0] \<and>
   sleep_completes (draining_server, default_heap) = (None, draining_server, default_heap) \<and>
   wait_for_tasks_to_complete [deadline_elapses] draining_server default_heap =
     Some (Some TimeoutError, [Log INFO waiting_connections_message [], Sleep],
           draining_server, default_heap, []) \<and>
   lifespan draining_server = Some 0 \<and>
   handshake_completes (draining_server, default_heap) = (None, draining_server, default_heap) \<and>
   tasks (server_state draining_server) = [7, 8] \<and>
   \<not> force_exit draining_server \<and>
   shutdown None sleep_completes [deadline_elapses] handshake_completes
       draining_server default_heap =
     Some ([Log INFO ''Shutting down'' [], ServerClose 0, ConnectionShutdown 3, Sleep,
            Log INFO waiting_connections_message [], Sleep,
            Log ERROR cancel_log_message [2],
            TaskCancel 7 cancel_msg, TaskCancel 8 cancel_msg, LifespanShutdown],
           None, draining_server, default_heap)"
proof -
  have started: "servers draining_server = Some [0]" "lifespan draining_server = Some 0"
    by (simp_all add: draining_server_def)
  have slept: "sleep_completes (draining_server, default_heap) = (None, draining_server, default_heap)"
    by (simp add: sleep_completes_def)
  have shaken: "handshake_completes (draining_server, default_heap) =
      (None, draining_server, default_heap)"
    by (simp add: handshake_completes_def)
  have elapsed: "wait_for_tasks_to_complete [deadline_elapses] draining_server default_heap =
     Some (Some TimeoutError, [Log INFO waiting_connections_message [], Sleep],
           draining_server, default_heap, [])"
    by (simp add: wait_for_tasks_to_complete_def wait_tasks_to_complete_def await_under_def
        connections_open_def deadline_elapses_def draining_server_def example_server_def
        Server_init_def ServerState_init_def Event_new_def split_beta)
  have facts: "tasks (server_state draining_server) = [7, 8]" "\<not> force_exit draining_server"
      "connections (server_state draining_server) = [3]"
    by (simp_all add: draining_server_def example_server_def Server_init_def ServerState_init_def
        Event_new_def split_beta)
  from shutdown_deadline_elapsed[where sleep = sleep_completes and srv = draining_server
      and h = default_heap and sockets = None and envs = "[deadline_elapses]"
      and handshake = handshake_completes,
      OF started(1) slept elapsed started(2) shaken]
  obtain effs where run: "shutdown None sleep_completes [deadline_elapses] handshake_completes
        draining_server default_heap =
      Some (effs, (if force_exit draining_server then None else None),
            (if force_exit draining_server then (draining_server, default_heap)
             else (draining_server, default_heap)))"
    and effs: "effs =
             ([Log INFO ''Shutting down'' []] @
              map ServerClose [0] @
              map SocketClose (case None of None \<Rightarrow> [] | Some ss \<Rightarrow> ss) @
              map ConnectionShutdown (connections (server_state draining_server)) @
              [Sleep]) @
             [Log INFO waiting_connections_message [], Sleep] @
             (Log ERROR cancel_log_message [int (length (tasks (server_state draining_server)))] #
              map (\<lambda>t. TaskCancel t cancel_msg) (tasks (server_state draining_server))) @
             (if \<not> force_exit draining_server then [LifespanShutdown] else [])"
    by blast
  from effs facts have "effs = [Log INFO ''Shutting down'' [], ServerClose 0, ConnectionShutdown 3, Sleep,
            Log INFO waiting_connections_message [], Sleep,
            Log ERROR cancel_log_message [2],
            TaskCancel 7 cancel_msg, TaskCancel 8 cancel_msg, LifespanShutdown]"
    by simp
  with run facts have "shutdown None sleep_completes [deadline_elapses] handshake_completes
       draining_server default_heap =
     Some ([Log INFO ''Shutting down'' [], ServerClose 0, ConnectionShutdown 3, Sleep,
            Log INFO waiting_connections_message [], Sleep,
            Log ERROR cancel_log_message [2],
            TaskCancel 7 cancel_msg, TaskCancel 8 cancel_msg, LifespanShutdown],
           None, draining_server, default_heap)"
    by simp
  with started slept shaken elapsed facts show ?thesis by blast
qed

end
